theory Spec2Isabelle
  imports Complex_Main "HOL-Library.Monad_Syntax"
begin

section \<open>Request values\<close>

text \<open>
  The handlers of \<^verbatim>\<open>server.js\<close> destructure fields out of a JSON request body and test
  them with \<^verbatim>\<open>if (field)\<close>. A field is therefore a JSON value or absent
  (\<^verbatim>\<open>undefined\<close>, modelled by \<open>None\<close>). Numbers are restricted to integers. Arrays and
  objects are truthy, also when they are empty.
\<close>

datatype jsonval =
  JNull | JBool bool | JNum int | JStr string | JArr "jsonval list"
  | JObj "(string \<times> jsonval) list"

fun truthy :: "jsonval \<Rightarrow> bool" where
  "truthy JNull = False"
| "truthy (JBool b) = b"
| "truthy (JNum n) = (n \<noteq> 0)"
| "truthy (JStr s) = (s \<noteq> [])"
| "truthy (JArr xs) = True"
| "truthy (JObj kvs) = True"

text \<open>\<^verbatim>\<open>if (x)\<close> on a destructured field: absent fields are falsy.\<close>

definition given :: "jsonval option \<Rightarrow> bool" where
  "given x = (case x of None \<Rightarrow> False | Some v \<Rightarrow> truthy v)"

text \<open>
  The text of a value (the language's \<^verbatim>\<open>ToString\<close>): a number in decimal, an array as
  the texts of its elements joined by commas, with nothing for a null element, an object
  as \<^verbatim>\<open>[object Object]\<close>.
\<close>

fun digits :: "nat \<Rightarrow> string" where
  "digits n =
     (if n < 10 then [char_of (48 + n)] else digits (n div 10) @ [char_of (48 + n mod 10)])"

declare digits.simps [simp del]

definition decimal :: "int \<Rightarrow> string" where
  "decimal i = (if i < 0 then CHR ''-'' # digits (nat (- i)) else digits (nat i))"

fun joinComma :: "string list \<Rightarrow> string" where
  "joinComma [] = []"
| "joinComma [s] = s"
| "joinComma (s # t # ss) = s @ '','' @ joinComma (t # ss)"

fun toText :: "jsonval \<Rightarrow> string" where
  "toText JNull = ''null''"
| "toText (JBool b) = (if b then ''true'' else ''false'')"
| "toText (JNum n) = decimal n"
| "toText (JStr s) = s"
| "toText (JArr xs) = joinComma (map (\<lambda>x. if x = JNull then [] else toText x) xs)"
| "toText (JObj kvs) = ''[object Object]''"

section \<open>The platform's Date arithmetic\<close>

text \<open>
  A \<^verbatim>\<open>Date\<close> holds a time value, the milliseconds since the epoch, or is invalid
  (\<open>None\<close>). \<^verbatim>\<open>setMonth\<close>, \<^verbatim>\<open>setFullYear\<close>, \<^verbatim>\<open>getMonth\<close> and
  \<^verbatim>\<open>getFullYear\<close> follow the abstract operations of the language standard: the local time
  is split into year, month, date and time within the day, the day number is rebuilt with
  \<open>MakeDay\<close> (a month beyond 11 rolls into the next year, a date beyond the month's length
  rolls into the next month), and the result is clipped to the valid range. The local time
  zone is the platform's offset function \<open>tz\<close>: \<open>tz t True\<close> is the offset in
  milliseconds in force at the instant \<open>t\<close>, and \<open>tz t False\<close> the offset in force at the
  local time \<open>t\<close>; with daylight saving the two depend on \<open>t\<close>.
\<close>



definition msPerDay :: int where
  "msPerDay = 86400000"

definition Day :: "int \<Rightarrow> int" where
  "Day t = t div msPerDay"

definition TimeWithinDay :: "int \<Rightarrow> int" where
  "TimeWithinDay t = t mod msPerDay"

definition DaysInYear :: "int \<Rightarrow> int" where
  "DaysInYear y =
     (if y mod 4 \<noteq> 0 then 365
      else if y mod 100 \<noteq> 0 then 366
      else if y mod 400 \<noteq> 0 then 365
      else 366)"

definition DayFromYear :: "int \<Rightarrow> int" where
  "DayFromYear y =
     365 * (y - 1970) + (y - 1969) div 4 - (y - 1901) div 100 + (y - 1601) div 400"

definition YearFromDay :: "int \<Rightarrow> int" where
  "YearFromDay d =
     (let y = 1970 + (400 * d) div 146097
      in if d < DayFromYear y then y - 1
         else if DayFromYear (y + 1) \<le> d then y + 1
         else y)"

definition YearFromTime :: "int \<Rightarrow> int" where
  "YearFromTime t = YearFromDay (Day t)"

definition InLeapYear :: "int \<Rightarrow> int" where
  "InLeapYear t = (if DaysInYear (YearFromTime t) = 366 then 1 else 0)"

definition DayWithinYear :: "int \<Rightarrow> int" where
  "DayWithinYear t = Day t - DayFromYear (YearFromTime t)"

definition MonthFromTime :: "int \<Rightarrow> int" where
  "MonthFromTime t =
     (let d = DayWithinYear t; l = InLeapYear t
      in if d < 31 then 0
         else if d < 59 + l then 1
         else if d < 90 + l then 2
         else if d < 120 + l then 3
         else if d < 151 + l then 4
         else if d < 181 + l then 5
         else if d < 212 + l then 6
         else if d < 243 + l then 7
         else if d < 273 + l then 8
         else if d < 304 + l then 9
         else if d < 334 + l then 10
         else 11)"

definition DateFromTime :: "int \<Rightarrow> int" where
  "DateFromTime t =
     (let d = DayWithinYear t; l = InLeapYear t; m = MonthFromTime t
      in if m = 0 then d + 1
         else if m = 1 then d - 30
         else if m = 2 then d - 58 - l
         else if m = 3 then d - 89 - l
         else if m = 4 then d - 119 - l
         else if m = 5 then d - 150 - l
         else if m = 6 then d - 180 - l
         else if m = 7 then d - 211 - l
         else if m = 8 then d - 242 - l
         else if m = 9 then d - 272 - l
         else if m = 10 then d - 303 - l
         else d - 333 - l)"

definition DaysBeforeMonth :: "int \<Rightarrow> int \<Rightarrow> int" where
  "DaysBeforeMonth y mn =
     (let l = (if DaysInYear y = 366 then 1 else 0)
      in if mn = 0 then 0
         else if mn = 1 then 31
         else if mn = 2 then 59 + l
         else if mn = 3 then 90 + l
         else if mn = 4 then 120 + l
         else if mn = 5 then 151 + l
         else if mn = 6 then 181 + l
         else if mn = 7 then 212 + l
         else if mn = 8 then 243 + l
         else if mn = 9 then 273 + l
         else if mn = 10 then 304 + l
         else 334 + l)"

definition MakeDay :: "int \<Rightarrow> int \<Rightarrow> int \<Rightarrow> int" where
  "MakeDay year month date =
     (let ym = year + month div 12; mn = month mod 12
      in DayFromYear ym + DaysBeforeMonth ym mn + date - 1)"

definition MakeDate :: "int \<Rightarrow> int \<Rightarrow> int" where
  "MakeDate day time = day * msPerDay + time"

definition TimeClip :: "int \<Rightarrow> int option" where
  "TimeClip t = (if \<bar>t\<bar> > 8640000000000000 then None else Some t)"

type_synonym zone = "int \<Rightarrow> bool \<Rightarrow> int"

definition LocalTime :: "zone \<Rightarrow> int \<Rightarrow> int" where
  "LocalTime tz t = t + tz t True"

definition UTC :: "zone \<Rightarrow> int \<Rightarrow> int" where
  "UTC tz t = t - tz t False"

definition getMonth :: "zone \<Rightarrow> int \<Rightarrow> int" where
  "getMonth tz t = MonthFromTime (LocalTime tz t)"

definition getFullYear :: "zone \<Rightarrow> int \<Rightarrow> int" where
  "getFullYear tz t = YearFromTime (LocalTime tz t)"

definition setMonth :: "zone \<Rightarrow> int \<Rightarrow> int \<Rightarrow> int option" where
  "setMonth tz t month =
     (let t' = LocalTime tz t;
          newDate = MakeDate (MakeDay (YearFromTime t') month (DateFromTime t')) (TimeWithinDay t')
      in TimeClip (UTC tz newDate))"

definition setFullYear :: "zone \<Rightarrow> int \<Rightarrow> int \<Rightarrow> int option" where
  "setFullYear tz t year =
     (let t' = LocalTime tz t;
          newDate = MakeDate (MakeDay year (MonthFromTime t') (DateFromTime t')) (TimeWithinDay t')
      in TimeClip (UTC tz newDate))"


definition MonthStart :: "int \<Rightarrow> int \<Rightarrow> int" where
  "MonthStart year month =
     DayFromYear (year + month div 12) + DaysBeforeMonth (year + month div 12) (month mod 12)"

section \<open>Documents and collections\<close>

text \<open>
  Identifiers are ObjectId values. A token carries the identifier of its account; the id of
  a URL is a string that the mapper casts to an identifier, if it can.
  The fields follow \<^verbatim>\<open>models/User.js\<close> and \<^verbatim>\<open>models/Payment.js\<close>; a field that a
  document may lack has an option type. Dates are time values.
\<close>

datatype objectId = ObjectId nat

record user =
  uid :: objectId
  name :: string
  email :: string
  password :: "string option"
  phone :: string
  role :: string
  membershipType :: "string option"
  startDate :: "int option"
  endDate :: "int option"
  status :: string
  createdAt :: int

record payment =
  pid :: objectId
  userId :: objectId
  amount :: rat
  paymentType :: string
  paymentMethod :: string
  razorpayPaymentId :: "string option"
  razorpayOrderId :: "string option"
  membership :: "string option"
  paymentStatus :: string
  paymentStartDate :: "int option"
  paymentEndDate :: "int option"
  paymentCreatedAt :: int

record store =
  users :: "user list"
  payments :: "payment list"

text \<open>\<^verbatim>\<open>req.user\<close>, the decoded token that \<^verbatim>\<open>authenticateToken\<close> attaches.\<close>

record requester =
  rid :: objectId
  rrole :: string

text \<open>The body of \<^verbatim>\<open>POST /members\<close> and \<^verbatim>\<open>PUT /members/:id\<close>.\<close>

record memberBody =
  bName :: "jsonval option"
  bEmail :: "jsonval option"
  bPhone :: "jsonval option"
  bMembershipType :: "jsonval option"
  bStartDate :: "jsonval option"
  bEndDate :: "jsonval option"
  bStatus :: "jsonval option"

text \<open>
  The body of \<^verbatim>\<open>POST /payments/verify\<close>. The identifiers, the signature and the plan are
  strings or absent (any other JSON value for the plan matches no branch of the handler and
  fails the schema's enum, like a string outside the enum). The amount is a number, or
  \<open>None\<close> when \<^verbatim>\<open>amount / 100\<close> is not a number.
\<close>

record verifyBody =
  razorpayPaymentIdB :: "string option"
  razorpayOrderIdB :: "string option"
  razorpaySignatureB :: "string option"
  membershipB :: "string option"
  amountB :: "rat option"

text \<open>
  The object-document mapper casts a JSON value to the type of the schema path; \<open>None\<close> is
  a failed cast. It casts the string of a query by id to an identifier, and throws when
  the string is not the text of one. \<open>objectIdText\<close> is the text of an identifier, the string
  that a token holds in \<^verbatim>\<open>req.user.id\<close>. The casts are parameters of the model.
\<close>

record odm =
  castString :: "jsonval \<Rightarrow> string option"
  castDate :: "jsonval \<Rightarrow> int option"
  castObjectId :: "string \<Rightarrow> objectId option"
  objectIdText :: "objectId \<Rightarrow> string"

datatype payload = Message string | MemberDoc user | Success string

type_synonym response = "nat \<times> payload"

definition membershipTypes :: "string list" where
  "membershipTypes = [''monthly'', ''quarterly'', ''yearly'']"

definition findById :: "user list \<Rightarrow> objectId \<Rightarrow> user option" where
  "findById us i = find (\<lambda>u. uid u = i) us"

definition findOneByEmail :: "user list \<Rightarrow> string \<Rightarrow> user option" where
  "findOneByEmail us e = find (\<lambda>u. email u = e) us"

text \<open>\<^verbatim>\<open>findByIdAndUpdate\<close> and \<^verbatim>\<open>findByIdAndDelete\<close> act on the one matching document.\<close>

fun updateById :: "objectId \<Rightarrow> (user \<Rightarrow> user) \<Rightarrow> user list \<Rightarrow> user list" where
  "updateById i f [] = []"
| "updateById i f (u # us) = (if uid u = i then f u # us else u # updateById i f us)"

fun deleteById :: "objectId \<Rightarrow> user list \<Rightarrow> user list" where
  "deleteById i [] = []"
| "deleteById i (u # us) = (if uid u = i then us else u # deleteById i us)"

text \<open>
  Saving a new user: the collection has unique indexes on \<^verbatim>\<open>_id\<close> and on
  \<^verbatim>\<open>email\<close> (\<^verbatim>\<open>unique: true\<close>); a duplicate key makes \<^verbatim>\<open>save\<close> throw.
\<close>

definition insertUser :: "user list \<Rightarrow> user \<Rightarrow> user list option" where
  "insertUser us m =
     (if list_ex (\<lambda>u. uid u = uid m \<or> email u = email m) us then None else Some (us @ [m]))"

definition insertPayment :: "payment list \<Rightarrow> payment \<Rightarrow> payment list option" where
  "insertPayment ps p =
     (if list_ex (\<lambda>q. pid q = pid p) ps then None else Some (ps @ [p]))"

text \<open>\<^verbatim>\<open>.select('-password')\<close>\<close>

definition selectNoPassword :: "user \<Rightarrow> user" where
  "selectNoPassword m = m\<lparr>password := None\<rparr>"

definition serverError :: response where
  "serverError = (500, Message ''Server error'')"

definition isAdmin :: "requester \<Rightarrow> bool" where
  "isAdmin r = (rrole r = ''admin'')"

definition adminRequired :: response where
  "adminRequired = (403, Message ''Unauthorized. Admin access required'')"

section \<open>routes/members.js\<close>

text \<open>
  \<^verbatim>\<open>GET /:id\<close> (admin or self). The check compares the id string of the token with the
  id string of the URL. \<^verbatim>\<open>findById\<close> casts the string of the URL; when the cast fails it
  throws, and the \<^verbatim>\<open>catch\<close> answers with the server error.
\<close>

definition getMember :: "odm \<Rightarrow> store \<Rightarrow> requester \<Rightarrow> string \<Rightarrow> response" where
  "getMember dm st r i =
     (if rrole r \<noteq> ''admin'' \<and> objectIdText dm (rid r) \<noteq> i then (403, Message ''Unauthorized'')
      else case castObjectId dm i of
             None \<Rightarrow> serverError
           | Some oid \<Rightarrow>
               (case findById (users st) oid of
                  None \<Rightarrow> (404, Message ''Member not found'')
                | Some member \<Rightarrow> (200, MemberDoc (selectNoPassword member))))"

text \<open>
  \<^verbatim>\<open>new User({...})\<close> followed by the validation that \<^verbatim>\<open>save\<close> runs: every path the
  handler sets is required (a required string must be non-empty), and the membership type
  must be in the schema's enum. \<open>None\<close> is a validation error.
\<close>

definition castRequired :: "(jsonval \<Rightarrow> 'a option) \<Rightarrow> jsonval option \<Rightarrow> 'a option" where
  "castRequired c x = (case x of None \<Rightarrow> None | Some v \<Rightarrow> c v)"

definition newMember :: "odm \<Rightarrow> memberBody \<Rightarrow> int \<Rightarrow> objectId \<Rightarrow> user option" where
  "newMember dm b now newId = do {
     n \<leftarrow> castRequired (castString dm) (bName b);
     e \<leftarrow> castRequired (castString dm) (bEmail b);
     p \<leftarrow> castRequired (castString dm) (bPhone b);
     t \<leftarrow> castRequired (castString dm) (bMembershipType b);
     s \<leftarrow> castRequired (castDate dm) (bStartDate b);
     d \<leftarrow> castRequired (castDate dm) (bEndDate b);
     if n \<noteq> [] \<and> e \<noteq> [] \<and> p \<noteq> [] \<and> t \<in> set membershipTypes
     then Some \<lparr>uid = newId, name = n, email = e, password = Some ''123456'', phone = p,
                 role = ''member'', membershipType = Some t, startDate = Some s,
                 endDate = Some d, status = ''active'', createdAt = now\<rparr>
     else None
   }"

definition saveMember :: "odm \<Rightarrow> store \<Rightarrow> memberBody \<Rightarrow> int \<Rightarrow> objectId \<Rightarrow> response \<times> store" where
  "saveMember dm st b now newId =
     (case newMember dm b now newId of
        None \<Rightarrow> (serverError, st)
      | Some member \<Rightarrow>
          (case insertUser (users st) member of
             None \<Rightarrow> (serverError, st)
           | Some us \<Rightarrow> ((201, Message ''Member added successfully''), st\<lparr>users := us\<rparr>)))"

text \<open>
  \<^verbatim>\<open>POST /\<close> (admin only). \<^verbatim>\<open>findOne({ email })\<close> casts the value it queries for; an
  absent email matches no document.
\<close>

definition createMember ::
  "odm \<Rightarrow> store \<Rightarrow> requester \<Rightarrow> memberBody \<Rightarrow> int \<Rightarrow> objectId \<Rightarrow> response \<times> store" where
  "createMember dm st r b now newId =
     (if \<not> isAdmin r then (adminRequired, st)
      else case bEmail b of
             None \<Rightarrow> saveMember dm st b now newId
           | Some v \<Rightarrow>
               (case castString dm v of
                  None \<Rightarrow> (serverError, st)
                | Some e \<Rightarrow>
                    (case findOneByEmail (users st) e of
                       Some member \<Rightarrow> ((400, Message ''User already exists''), st)
                     | None \<Rightarrow> saveMember dm st b now newId)))"

text \<open>\<^verbatim>\<open>if (x) memberFields.x = x\<close>: only truthy fields enter \<^verbatim>\<open>memberFields\<close>.\<close>

definition keep :: "jsonval option \<Rightarrow> jsonval option" where
  "keep x = (if given x then x else None)"

definition memberFields :: "memberBody \<Rightarrow> memberBody" where
  "memberFields b =
     \<lparr>bName = keep (bName b), bEmail = keep (bEmail b), bPhone = keep (bPhone b),
      bMembershipType = keep (bMembershipType b), bStartDate = keep (bStartDate b),
      bEndDate = keep (bEndDate b), bStatus = keep (bStatus b)\<rparr>"

text \<open>
  \<^verbatim>\<open>{ $set: memberFields }\<close>: each key of \<^verbatim>\<open>memberFields\<close> is cast and assigned, the
  other paths keep their values. Update validators are off, so no enum is checked.
\<close>

definition castSet :: "(jsonval \<Rightarrow> 'a option) \<Rightarrow> jsonval option \<Rightarrow> 'a \<Rightarrow> 'a option" where
  "castSet c x old = (case x of None \<Rightarrow> Some old | Some v \<Rightarrow> c v)"

definition castSetOpt ::
  "(jsonval \<Rightarrow> 'a option) \<Rightarrow> jsonval option \<Rightarrow> 'a option \<Rightarrow> 'a option option" where
  "castSetOpt c x old = (case x of None \<Rightarrow> Some old | Some v \<Rightarrow> map_option Some (c v))"

definition applySet :: "odm \<Rightarrow> memberBody \<Rightarrow> user \<Rightarrow> user option" where
  "applySet dm f m = do {
     n \<leftarrow> castSet (castString dm) (bName f) (name m);
     e \<leftarrow> castSet (castString dm) (bEmail f) (email m);
     p \<leftarrow> castSet (castString dm) (bPhone f) (phone m);
     t \<leftarrow> castSetOpt (castString dm) (bMembershipType f) (membershipType m);
     s \<leftarrow> castSetOpt (castDate dm) (bStartDate f) (startDate m);
     d \<leftarrow> castSetOpt (castDate dm) (bEndDate f) (endDate m);
     a \<leftarrow> castSet (castString dm) (bStatus f) (status m);
     Some (m\<lparr>name := n, email := e, phone := p, membershipType := t, startDate := s,
             endDate := d, status := a\<rparr>)
   }"

text \<open>
  \<^verbatim>\<open>PUT /:id\<close> (admin only). The update throws on a failed cast and on a new email
  that a document already holds (unique index). The id is the identifier that the string
  of the URL casts to.
\<close>

definition updateMember ::
  "odm \<Rightarrow> store \<Rightarrow> requester \<Rightarrow> objectId \<Rightarrow> memberBody \<Rightarrow> response \<times> store" where
  "updateMember dm st r i b =
     (if \<not> isAdmin r then (adminRequired, st)
      else let fields = memberFields b
           in case findById (users st) i of
                None \<Rightarrow> ((404, Message ''Member not found''), st)
              | Some member \<Rightarrow>
                  (case applySet dm fields member of
                     None \<Rightarrow> (serverError, st)
                   | Some member' \<Rightarrow>
                       if email member' \<noteq> email member
                          \<and> list_ex (\<lambda>u. email u = email member') (users st)
                       then (serverError, st)
                       else ((200, MemberDoc (selectNoPassword member')),
                             st\<lparr>users := updateById i (\<lambda>u. member') (users st)\<rparr>)))"

text \<open>
  \<^verbatim>\<open>DELETE /:id\<close> (admin only). The id is the identifier that the string of the URL
  casts to.
\<close>

definition deleteMember :: "store \<Rightarrow> requester \<Rightarrow> objectId \<Rightarrow> response \<times> store" where
  "deleteMember st r i =
     (if \<not> isAdmin r then (adminRequired, st)
      else case findById (users st) i of
             None \<Rightarrow> ((404, Message ''Member not found''), st)
           | Some member \<Rightarrow>
               ((200, Message ''Member deleted''), st\<lparr>users := deleteById i (users st)\<rparr>))"

section \<open>routes/payments.js\<close>

text \<open>
  \<^verbatim>\<open>Calculate membership dates\<close>: \<^verbatim>\<open>startDate\<close> and \<^verbatim>\<open>endDate\<close> are two
  \<^verbatim>\<open>new Date()\<close>, so two readings of the clock, \<open>now1\<close> and \<open>now2\<close>; the second one is
  moved forward according to the plan.
\<close>

definition membershipDates :: "zone \<Rightarrow> string option \<Rightarrow> int \<Rightarrow> int \<Rightarrow> int \<times> int option" where
  "membershipDates tz plan now1 now2 =
     (let startDate = now1;
          endDate =
            (if plan = Some ''monthly'' then setMonth tz now2 (getMonth tz now2 + 1)
             else if plan = Some ''quarterly'' then setMonth tz now2 (getMonth tz now2 + 3)
             else if plan = Some ''yearly''
               then setFullYear tz now2 (getFullYear tz now2 + 1)
             else Some now2)
      in (startDate, endDate))"

text \<open>
  \<^verbatim>\<open>new Payment({...})\<close> and the validation of \<^verbatim>\<open>save\<close>: the amount is required and must
  be a number, the end date must be a valid date, and the strings must be in their enums.
  \<open>now3\<close> is the clock reading of the \<^verbatim>\<open>createdAt\<close> default.
\<close>

definition newPayment ::
  "requester \<Rightarrow> verifyBody \<Rightarrow> int \<Rightarrow> int option \<Rightarrow> int \<Rightarrow> objectId \<Rightarrow> payment option" where
  "newPayment r b startD endD now3 newId =
     (case (amountB b, endD) of
        (Some a, Some e) \<Rightarrow>
          if (case membershipB b of None \<Rightarrow> True | Some m \<Rightarrow> m \<in> set membershipTypes)
          then Some \<lparr>pid = newId, userId = rid r, amount = a / 100, paymentType = ''membership'',
                      paymentMethod = ''card'', razorpayPaymentId = razorpayPaymentIdB b,
                      razorpayOrderId = razorpayOrderIdB b, membership = membershipB b,
                      paymentStatus = ''completed'', paymentStartDate = Some startD,
                      paymentEndDate = Some e, paymentCreatedAt = now3\<rparr>
          else None
      | _ \<Rightarrow> None)"

text \<open>
  \<^verbatim>\<open>POST /verify\<close> (any authenticated requester). \<^verbatim>\<open>razorpaySignature\<close> is read from the
  body and not used. The update of the user is by the requester's id and does nothing when
  no document has that id; an absent plan is written as an absent membership type.
\<close>

definition verify ::
  "zone \<Rightarrow> store \<Rightarrow> requester \<Rightarrow> verifyBody \<Rightarrow> int \<Rightarrow> int \<Rightarrow> int \<Rightarrow> objectId \<Rightarrow> response \<times> store" where
  "verify tz st r b now1 now2 now3 newId =
     (case membershipDates tz (membershipB b) now1 now2 of
        (startD, endD) \<Rightarrow>
          (case newPayment r b startD endD now3 newId of
             None \<Rightarrow> (serverError, st)
           | Some p \<Rightarrow>
               (case insertPayment (payments st) p of
                  None \<Rightarrow> (serverError, st)
                | Some ps \<Rightarrow>
                    ((200, Success ''Payment verified and membership updated''),
                     st\<lparr>payments := ps,
                        users := updateById (rid r)
                          (\<lambda>u. u\<lparr>membershipType := membershipB b, startDate := Some startD,
                                 endDate := endD, status := ''active''\<rparr>)
                          (users st)\<rparr>))))"

section \<open>The dashboard's days remaining (App.js)\<close>

text \<open>
  \<^verbatim>\<open>new Date(value)\<close> on a stored end date: a number is a time value, a string goes through
  the platform's date parser \<open>parse\<close>, an array or an object goes through it with its text,
  \<^verbatim>\<open>true\<close> is the number 1. The result is clipped to the valid range.
\<close>

fun toDate :: "(string \<Rightarrow> int option) \<Rightarrow> jsonval \<Rightarrow> int option" where
  "toDate parse (JStr s) = Option.bind (parse s) TimeClip"
| "toDate parse (JNum n) = TimeClip n"
| "toDate parse (JBool b) = TimeClip (if b then 1 else 0)"
| "toDate parse JNull = TimeClip 0"
| "toDate parse (JArr xs) = Option.bind (parse (toText (JArr xs))) TimeClip"
| "toDate parse (JObj kvs) = Option.bind (parse (toText (JObj kvs))) TimeClip"

text \<open>
  The platform's numbers are doubles. An arithmetic operation gives the double nearest to
  the exact result, the one with the even significand when two are equally near:
  \<open>exponent64\<close> is the binary exponent of a number, not below that of the least normal
  double, \<open>ulp64\<close> the distance between the doubles around it (the significand has 53
  bits), and \<open>binary64\<close> the nearest double. Overflow to infinity, beyond \<open>2\<^sup>1\<^sup>0\<^sup>2\<^sup>4\<close>, is left
  out: the operands here are time values.
\<close>

definition roundHalfEven :: "real \<Rightarrow> int" where
  "roundHalfEven z =
     (let f = \<lfloor>z\<rfloor>; d = z - real_of_int f
      in if d < 1 / 2 then f else if 1 / 2 < d then f + 1 else if even f then f else f + 1)"

definition exponent64 :: "real \<Rightarrow> int" where
  "exponent64 x = max \<lfloor>log 2 \<bar>x\<bar>\<rfloor> (- 1022)"

definition ulp64 :: "real \<Rightarrow> real" where
  "ulp64 x = 2 powr real_of_int (exponent64 x - 52)"

definition binary64 :: "real \<Rightarrow> real" where
  "binary64 x = (if x = 0 then 0 else real_of_int (roundHalfEven (x / ulp64 x)) * ulp64 x)"

text \<open>
  \<^verbatim>\<open>getDaysRemaining\<close>, with the stored \<^verbatim>\<open>membershipData?.endDate\<close> and the clock
  reading as arguments. An invalid date makes every comparison false, so the result is 0.
  The time values of the two dates and the divisor are doubles; the difference and the
  quotient are rounded to doubles, and \<^verbatim>\<open>Math.ceil\<close> of a double is exact.
\<close>

definition getDaysRemaining :: "(string \<Rightarrow> int option) \<Rightarrow> jsonval option \<Rightarrow> int \<Rightarrow> int" where
  "getDaysRemaining parse endDateField today =
     (case endDateField of
        None \<Rightarrow> 0
      | Some v \<Rightarrow>
          if \<not> truthy v then 0
          else (case toDate parse v of
                  None \<Rightarrow> 0
                | Some endTime \<Rightarrow>
                    (let diffTime = binary64 (real_of_int endTime - real_of_int today);
                         diffDays = \<lceil>binary64 (diffTime / real_of_int (1000 * 60 * 60 * 24))\<rceil>
                     in if diffDays > 0 then diffDays else 0)))"

section \<open>Notions of the specification\<close>

text \<open>
  The specification speaks of adding calendar months to a date. \<open>addCalendarMonths\<close>
  follows its words: the year, month and date of the local time are kept, the month count
  is increased, and the platform's \<open>MakeDay\<close> rolls a month beyond December into the next
  year and a date beyond the month's end into the following month. One calendar year is
  twelve calendar months.
\<close>

definition addCalendarMonths :: "zone \<Rightarrow> int \<Rightarrow> int \<Rightarrow> int" where
  "addCalendarMonths tz k t =
     (let t' = LocalTime tz t
      in UTC tz (MakeDate (MakeDay (YearFromTime t') (MonthFromTime t' + k) (DateFromTime t'))
                          (TimeWithinDay t')))"

definition planMonths :: "string \<Rightarrow> int" where
  "planMonths p = (if p = ''monthly'' then 1 else if p = ''quarterly'' then 3 else 12)"

text \<open>The time values of valid dates.\<close>

definition maxTime :: int where
  "maxTime = 8640000000000000"

text \<open>
  The offsets of a time zone are less than a day.
\<close>

definition boundedZone :: "zone \<Rightarrow> bool" where
  "boundedZone tz = (\<forall>t b. \<bar>tz t b\<bar> \<le> msPerDay)"

text \<open>
  What the days remaining need of the rounding to the nearest double: it is monotone, it
  leaves the integers up to \<open>2\<^sup>5\<^sup>3\<close> as they are, and in the range of the normal doubles its
  relative error is at most \<open>2\<^sup>-\<^sup>5\<^sup>3\<close>.
\<close>

definition roundsToNearest :: "(real \<Rightarrow> real) \<Rightarrow> bool" where
  "roundsToNearest fl =
     ((\<forall>x y. x \<le> y \<longrightarrow> fl x \<le> fl y)
      \<and> (\<forall>n::int. \<bar>n\<bar> \<le> 2 ^ 53 \<longrightarrow> fl (real_of_int n) = real_of_int n)
      \<and> (\<forall>x. 1 / 2 ^ 1022 \<le> \<bar>x\<bar> \<and> \<bar>x\<bar> \<le> 2 ^ 1023 \<longrightarrow> \<bar>fl x - x\<bar> \<le> \<bar>x\<bar> / 2 ^ 53))"

text \<open>
  Every document has its own identifier and its own email: the state that the unique
  indexes of the users collection maintain.
\<close>

definition uniqueKeys :: "store \<Rightarrow> bool" where
  "uniqueKeys st = (distinct (map uid (users st)) \<and> distinct (map email (users st)))"

text \<open>
  The text of an identifier is 24 hexadecimal digits, in lower case; the cast of a string
  of 24 hexadecimal digits takes them in either case. No other string has a cast here; the
  handlers are stated for every cast \<open>castObjectId\<close>.
\<close>

definition hexDigit :: "char \<Rightarrow> nat option" where
  "hexDigit c =
     (let n = (of_char c :: nat)
      in if 48 \<le> n \<and> n \<le> 57 then Some (n - 48)
         else if 97 \<le> n \<and> n \<le> 102 then Some (n - 87)
         else if 65 \<le> n \<and> n \<le> 70 then Some (n - 55)
         else None)"

fun hexValue :: "nat \<Rightarrow> string \<Rightarrow> nat option" where
  "hexValue acc [] = Some acc"
| "hexValue acc (c # cs) =
     (case hexDigit c of None \<Rightarrow> None | Some d \<Rightarrow> hexValue (16 * acc + d) cs)"

definition hexObjectId :: "string \<Rightarrow> objectId option" where
  "hexObjectId s = (if length s = 24 then map_option ObjectId (hexValue 0 s) else None)"

definition hexChar :: "nat \<Rightarrow> char" where
  "hexChar d = (if d < 10 then char_of (48 + d) else char_of (87 + d))"

fun hexText :: "nat \<Rightarrow> nat \<Rightarrow> string" where
  "hexText 0 n = []"
| "hexText (Suc k) n = hexText k (n div 16) @ [hexChar (n mod 16)]"

fun objectIdHex :: "objectId \<Rightarrow> string" where
  "objectIdHex (ObjectId n) = hexText 24 n"

text \<open>
  The mapper's cast to the string type of a schema path: a string is itself, a number and a
  boolean are their texts, an object with a non-empty string \<^verbatim>\<open>_id\<close> is that string; null
  is no value, and an array or any other object is a failed cast.
\<close>

fun schemaString :: "jsonval \<Rightarrow> string option" where
  "schemaString JNull = None"
| "schemaString (JBool b) = Some (toText (JBool b))"
| "schemaString (JNum n) = Some (decimal n)"
| "schemaString (JStr s) = Some s"
| "schemaString (JArr xs) = None"
| "schemaString (JObj kvs) =
     (case map_of (rev kvs) ''_id'' of
        Some (JStr s) \<Rightarrow> if s = [] then None else Some s
      | _ \<Rightarrow> None)"

text \<open>
  The mapper's cast to the date type: a number is a time value, a non-empty string goes
  through the date parser \<open>parse\<close>, as an array or an object does with its text; null, the
  empty string and a boolean give no date.
\<close>

fun schemaDate :: "(string \<Rightarrow> int option) \<Rightarrow> jsonval \<Rightarrow> int option" where
  "schemaDate parse JNull = None"
| "schemaDate parse (JBool b) = None"
| "schemaDate parse (JNum n) = TimeClip n"
| "schemaDate parse (JStr s) = (if s = [] then None else Option.bind (parse s) TimeClip)"
| "schemaDate parse (JArr xs) = Option.bind (parse (toText (JArr xs))) TimeClip"
| "schemaDate parse (JObj kvs) = Option.bind (parse (toText (JObj kvs))) TimeClip"

definition schemaCasts :: "(string \<Rightarrow> int option) \<Rightarrow> odm" where
  "schemaCasts parse =
     \<lparr>castString = schemaString, castDate = schemaDate parse, castObjectId = hexObjectId,
      objectIdText = objectIdHex\<rparr>"

text \<open>The casts and values used in the examples.\<close>

definition plainCasts :: odm where
  "plainCasts =
     \<lparr>castString = (\<lambda>v. case v of JStr s \<Rightarrow> Some s | _ \<Rightarrow> None),
      castDate = (\<lambda>v. case v of JNum n \<Rightarrow> TimeClip n | _ \<Rightarrow> None),
      castObjectId = hexObjectId, objectIdText = objectIdHex\<rparr>"

text \<open>
  A platform on universal time, and one on the eastern time of North America around the
  start of daylight saving on 2024-03-10: five hours behind before 07:00 UTC of that day
  (03:00 local), four hours behind from then on.
\<close>

definition utcZone :: zone where
  "utcZone = (\<lambda>t isUTC. 0)"

definition easternZone :: zone where
  "easternZone =
     (\<lambda>t isUTC. if isUTC then (if t < 1710054000000 then - 18000000 else - 14400000)
                 else (if t < 1710039600000 then - 18000000 else - 14400000))"

definition admin0 :: requester where
  "admin0 = \<lparr>rid = ObjectId 0, rrole = ''admin''\<rparr>"

definition member1 :: requester where
  "member1 = \<lparr>rid = ObjectId 1, rrole = ''member''\<rparr>"

definition asha :: user where
  "asha = \<lparr>uid = ObjectId 1, name = ''Asha'', email = ''a@x.com'', password = Some ''123456'',
            phone = ''555'', role = ''member'', membershipType = Some ''monthly'',
            startDate = Some 1709251200000, endDate = Some 1711929600000,
            status = ''active'', createdAt = 1709200000000\<rparr>"

definition ashaBody :: memberBody where
  "ashaBody =
     \<lparr>bName = Some (JStr ''Asha''), bEmail = Some (JStr ''a@x.com''),
      bPhone = Some (JStr ''555''), bMembershipType = Some (JStr ''monthly''),
      bStartDate = Some (JNum 1709251200000), bEndDate = Some (JNum 1711929600000),
      bStatus = None\<rparr>"

definition emptyBody :: memberBody where
  "emptyBody =
     \<lparr>bName = None, bEmail = None, bPhone = None, bMembershipType = None,
      bStartDate = None, bEndDate = None, bStatus = None\<rparr>"

definition emptyStore :: store where
  "emptyStore = \<lparr>users = [], payments = []\<rparr>"

definition ashaStore :: store where
  "ashaStore = \<lparr>users = [asha], payments = []\<rparr>"

definition yearlyBody :: verifyBody where
  "yearlyBody =
     \<lparr>razorpayPaymentIdB = Some ''pay_1'', razorpayOrderIdB = Some ''order_1'',
      razorpaySignatureB = Some ''forged'', membershipB = Some ''yearly'',
      amountB = Some 500000\<rparr>"

text \<open>A requester whose token names an identifier that no document has.\<close>

definition stranger :: requester where
  "stranger = \<lparr>rid = ObjectId 2, rrole = ''member''\<rparr>"


section \<open>Calendar arithmetic\<close>

text \<open>
  \<open>YearFromDay\<close> returns the year that contains the day: the characterisation of
  \<open>YearFromTime\<close> in the language standard.
\<close>

lemma div_succ:
  fixes a c :: int
  assumes "0 < c"
  shows "(a + 1) div c = a div c + (if (a + 1) mod c = 0 then 1 else 0)"
proof -
  define q where "q = a div c"
  define r where "r = a mod c"
  have a: "a = c * q + r"
    by (simp add: q_def r_def)
  have r: "0 \<le> r" "r < c"
    using assms by (simp_all add: r_def)
  show ?thesis
  proof (cases "r + 1 = c")
    case True
    then have e: "a + 1 = c * (q + 1) + 0"
      using a by (simp add: algebra_simps)
    have "(a + 1) div c = q + 1"
      by (rule int_div_pos_eq [OF e]) (use assms in simp_all)
    moreover have "(a + 1) mod c = 0"
      by (rule int_mod_pos_eq [OF e]) (use assms in simp_all)
    ultimately show ?thesis by (simp add: q_def)
  next
    case False
    then have b: "0 \<le> r + 1" "r + 1 < c"
      using r by simp_all
    have e: "a + 1 = c * q + (r + 1)"
      using a by simp
    have "(a + 1) div c = q"
      by (rule int_div_pos_eq [OF e b])
    moreover have "(a + 1) mod c = r + 1"
      by (rule int_mod_pos_eq [OF e b])
    ultimately show ?thesis using False r by (simp add: q_def)
  qed
qed

lemma mod_shift:
  fixes y :: int
  shows "(y - 1968) mod 4 = y mod 4" "(y - 1900) mod 100 = y mod 100"
    "(y - 1600) mod 400 = y mod 400"
proof -
  have "y - 1968 = y + (- 492) * 4" "y - 1900 = y + (- 19) * 100" "y - 1600 = y + (- 4) * 400"
    by simp_all
  then show "(y - 1968) mod 4 = y mod 4" "(y - 1900) mod 100 = y mod 100"
    "(y - 1600) mod 400 = y mod 400"
    by (simp_all only: mod_mult_self1)
qed

lemma mod_chain:
  fixes y :: int
  shows "y mod 100 = 0 \<Longrightarrow> y mod 4 = 0" "y mod 400 = 0 \<Longrightarrow> y mod 100 = 0"
proof -
  have "y mod 100 mod 4 = y mod 4"
    by (rule mod_mod_cancel) simp
  moreover have "y mod 400 mod 100 = y mod 100"
    by (rule mod_mod_cancel) simp
  ultimately show "y mod 100 = 0 \<Longrightarrow> y mod 4 = 0" "y mod 400 = 0 \<Longrightarrow> y mod 100 = 0"
    by (metis mod_0)+
qed

lemma leap_aux:
  fixes A B C :: int
  assumes "q \<Longrightarrow> p" "r \<Longrightarrow> q"
  shows "365 * (y - 1969) + (A + (if p then 1 else 0)) - (B + (if q then 1 else 0))
           + (C + (if r then 1 else 0))
         = 365 * (y - 1970) + A - B + C
           + (if \<not> p then 365 else if \<not> q then 366 else if \<not> r then 365 else 366)"
  using assms by auto

lemma DayFromYear_step: "DayFromYear (y + 1) = DayFromYear y + DaysInYear y"
proof -
  have d4: "(y - 1968) div 4 = (y - 1969) div 4 + (if y mod 4 = 0 then 1 else 0)"
    using div_succ [of 4 "y - 1969"] mod_shift(1) [of y] by simp
  have d100: "(y - 1900) div 100 = (y - 1901) div 100 + (if y mod 100 = 0 then 1 else 0)"
    using div_succ [of 100 "y - 1901"] mod_shift(2) [of y] by simp
  have d400: "(y - 1600) div 400 = (y - 1601) div 400 + (if y mod 400 = 0 then 1 else 0)"
    using div_succ [of 400 "y - 1601"] mod_shift(3) [of y] by simp
  have s: "y + 1 - 1970 = y - 1969" "y + 1 - 1969 = y - 1968" "y + 1 - 1901 = y - 1900"
    "y + 1 - 1601 = y - 1600"
    by simp_all
  have "DayFromYear (y + 1) =
          365 * (y - 1969) + (y - 1968) div 4 - (y - 1900) div 100 + (y - 1600) div 400"
    unfolding DayFromYear_def s ..
  also have "\<dots> = 365 * (y - 1970) + (y - 1969) div 4 - (y - 1901) div 100 + (y - 1601) div 400
           + (if \<not> y mod 4 = 0 then 365 else if \<not> y mod 100 = 0 then 366
              else if \<not> y mod 400 = 0 then 365 else 366)"
    unfolding d4 d100 d400
    by (rule leap_aux [where p = "y mod 4 = 0" and q = "y mod 100 = 0" and r = "y mod 400 = 0"])
      (rule mod_chain, assumption)+
  finally show ?thesis
    unfolding DayFromYear_def DaysInYear_def .
qed

lemma DayFromYear_linear:
  "146097 * (y - 1970) - 506 \<le> 400 * DayFromYear y"
  "400 * DayFromYear y \<le> 146097 * (y - 1970) + 589"
proof -
  define a where "a = (y - 1969) div 4"
  define b where "b = (y - 1901) div 100"
  define c where "c = (y - 1601) div 400"
  define ra where "ra = (y - 1969) mod 4"
  define rb where "rb = (y - 1901) mod 100"
  define rc where "rc = (y - 1601) mod 400"
  have ea: "y - 1969 = 4 * a + ra" and eb: "y - 1901 = 100 * b + rb"
    and ec: "y - 1601 = 400 * c + rc"
    by (simp_all add: a_def b_def c_def ra_def rb_def rc_def)
  have bnd: "0 \<le> ra" "ra < 4" "0 \<le> rb" "rb < 100" "0 \<le> rc" "rc < 400"
    by (simp_all add: ra_def rb_def rc_def)
  have d: "DayFromYear y = 365 * (y - 1970) + a - b + c"
    by (simp add: DayFromYear_def a_def b_def c_def)
  have m: "400 * a = 100 * (y - 1969) - 100 * ra" "400 * b = 4 * (y - 1901) - 4 * rb"
    "400 * c = (y - 1601) - rc"
    using ea eb ec by simp_all
  show "146097 * (y - 1970) - 506 \<le> 400 * DayFromYear y"
    unfolding d using m bnd by simp
  show "400 * DayFromYear y \<le> 146097 * (y - 1970) + 589"
    unfolding d using m bnd by simp
qed

lemma YearFromDay_bounds:
  "DayFromYear (YearFromDay d) \<le> d" "d < DayFromYear (YearFromDay d + 1)"
proof -
  define k where "k = (400 * d) div 146097"
  define r where "r = (400 * d) mod 146097"
  define y where "y = 1970 + k"
  have e: "400 * d = 146097 * (y - 1970) + r"
    by (simp add: k_def r_def y_def)
  have b: "0 \<le> r" "r < 146097"
    by (simp_all add: r_def)
  have Y: "YearFromDay d =
     (if d < DayFromYear y then y - 1 else if DayFromYear (y + 1) \<le> d then y + 1 else y)"
    by (simp add: YearFromDay_def Let_def y_def k_def)
  have lo: "400 * DayFromYear (y - 1) \<le> 400 * d"
    using DayFromYear_linear(2) [of "y - 1"] e b by simp
  have hi: "400 * d < 400 * DayFromYear (y + 1 + 1)"
    using DayFromYear_linear(1) [of "y + 1 + 1"] e b by simp
  have lo': "DayFromYear (y - 1) \<le> d" using lo by simp
  have hi': "d < DayFromYear (y + 1 + 1)" using hi by simp
  show "DayFromYear (YearFromDay d) \<le> d"
    unfolding Y using lo' by simp
  show "d < DayFromYear (YearFromDay d + 1)"
    unfolding Y using hi' by simp
qed

lemma DayWithinYear_range:
  "0 \<le> DayWithinYear t" "DayWithinYear t < DaysInYear (YearFromTime t)"
  using YearFromDay_bounds [of "Day t"] DayFromYear_step [of "YearFromTime t"]
  by (simp_all add: DayWithinYear_def YearFromTime_def)

lemma MonthFromTime_range: "0 \<le> MonthFromTime t" "MonthFromTime t \<le> 11"
  by (simp_all add: MonthFromTime_def Let_def)

lemma DaysInYear_cases: "DaysInYear y = 365 \<or> DaysInYear y = 366"
  by (simp add: DaysInYear_def)

lemma DateFromTime_range: "1 \<le> DateFromTime t" "DateFromTime t \<le> 31"
  using DayWithinYear_range [of t] DaysInYear_cases [of "YearFromTime t"]
  by (auto simp add: DateFromTime_def MonthFromTime_def InLeapYear_def Let_def
      split: if_splits)

lemma month_date_roundtrip:
  "DaysBeforeMonth (YearFromTime t) (MonthFromTime t) + DateFromTime t - 1 = DayWithinYear t"
  by (simp add: DaysBeforeMonth_def DateFromTime_def MonthFromTime_def InLeapYear_def Let_def)

lemma MakeDay_roundtrip:
  "MakeDay (YearFromTime t) (MonthFromTime t) (DateFromTime t) = Day t"
proof -
  define m where "m = MonthFromTime t"
  have r: "0 \<le> m" "m < 12"
    using MonthFromTime_range [of t] by (simp_all add: m_def)
  then have "m div 12 = 0" "m mod 12 = m"
    by simp_all
  then have "MakeDay (YearFromTime t) m (DateFromTime t) =
      DayFromYear (YearFromTime t) + (DaysBeforeMonth (YearFromTime t) m + DateFromTime t - 1)"
    by (simp add: MakeDay_def Let_def)
  then show ?thesis
    unfolding m_def month_date_roundtrip by (simp add: DayWithinYear_def)
qed

lemma MakeDay_MonthStart: "MakeDay y m dt = MonthStart y m + dt - 1"
  by (simp add: MakeDay_def MonthStart_def Let_def)

lemma DaysBeforeMonth_step:
  assumes "0 \<le> r" "r < 11"
  shows "28 \<le> DaysBeforeMonth Y (r + 1) - DaysBeforeMonth Y r"
    "DaysBeforeMonth Y (r + 1) - DaysBeforeMonth Y r \<le> 31"
proof -
  have "r = 0 \<or> r = 1 \<or> r = 2 \<or> r = 3 \<or> r = 4 \<or> r = 5 \<or> r = 6 \<or> r = 7 \<or> r = 8
      \<or> r = 9 \<or> r = 10"
    using assms by arith
  then show "28 \<le> DaysBeforeMonth Y (r + 1) - DaysBeforeMonth Y r"
    "DaysBeforeMonth Y (r + 1) - DaysBeforeMonth Y r \<le> 31"
    by (auto simp add: DaysBeforeMonth_def)
qed

lemma MonthStart_step:
  "28 \<le> MonthStart y (m + 1) - MonthStart y m" "MonthStart y (m + 1) - MonthStart y m \<le> 31"
proof -
  define q where "q = m div 12"
  define r where "r = m mod 12"
  have m: "m = 12 * q + r"
    by (simp add: q_def r_def)
  have r: "0 \<le> r" "r < 12"
    by (simp_all add: r_def)
  have S: "MonthStart y m = DayFromYear (y + q) + DaysBeforeMonth (y + q) r"
    by (simp add: MonthStart_def q_def r_def)
  have "28 \<le> MonthStart y (m + 1) - MonthStart y m
      \<and> MonthStart y (m + 1) - MonthStart y m \<le> 31"
  proof (cases "r = 11")
    case True
    then have e: "m + 1 = 12 * (q + 1) + 0"
      using m by simp
    have "(m + 1) div 12 = q + 1" "(m + 1) mod 12 = 0"
      using int_div_pos_eq [OF e] int_mod_pos_eq [OF e] by simp_all
    then have "MonthStart y (m + 1) = DayFromYear (y + q + 1) + DaysBeforeMonth (y + q + 1) 0"
      by (simp add: MonthStart_def add.assoc)
    then have "MonthStart y (m + 1) = DayFromYear (y + q) + DaysInYear (y + q)"
      by (simp add: DayFromYear_step DaysBeforeMonth_def)
    moreover have "DaysBeforeMonth (y + q) r = DaysInYear (y + q) - 31"
      using True DaysInYear_cases [of "y + q"] by (auto simp add: DaysBeforeMonth_def)
    ultimately show ?thesis
      unfolding S by simp
  next
    case False
    then have b: "0 \<le> r + 1" "r + 1 < 12" and r': "r < 11"
      using r by simp_all
    have e: "m + 1 = 12 * q + (r + 1)"
      using m by simp
    have "(m + 1) div 12 = q" "(m + 1) mod 12 = r + 1"
      using int_div_pos_eq [OF e b] int_mod_pos_eq [OF e b] by simp_all
    then have "MonthStart y (m + 1) = DayFromYear (y + q) + DaysBeforeMonth (y + q) (r + 1)"
      by (simp add: MonthStart_def)
    then show ?thesis
      unfolding S using DaysBeforeMonth_step [OF r(1) r', of "y + q"] by simp
  qed
  then show "28 \<le> MonthStart y (m + 1) - MonthStart y m"
    "MonthStart y (m + 1) - MonthStart y m \<le> 31"
    by simp_all
qed

lemma MonthStart_plus3:
  "84 \<le> MonthStart y (m + 3) - MonthStart y m" "MonthStart y (m + 3) - MonthStart y m \<le> 93"
  using MonthStart_step [of y m] MonthStart_step [of y "m + 1"] MonthStart_step [of y "m + 1 + 1"]
  by (simp_all add: add.assoc)

lemma MonthStart_next_year:
  assumes "0 \<le> m" "m \<le> 11"
  shows "365 \<le> MonthStart (y + 1) m - MonthStart y m"
    "MonthStart (y + 1) m - MonthStart y m \<le> 366"
proof -
  have d: "m div 12 = 0" "m mod 12 = m"
    using assms by simp_all
  have S: "MonthStart (y + 1) m - MonthStart y m =
      DaysInYear y + (DaysBeforeMonth (y + 1) m - DaysBeforeMonth y m)"
    by (simp add: MonthStart_def d DayFromYear_step)
  have "365 \<le> DaysInYear y + (DaysBeforeMonth (y + 1) m - DaysBeforeMonth y m)
      \<and> DaysInYear y + (DaysBeforeMonth (y + 1) m - DaysBeforeMonth y m) \<le> 366"
    using DaysInYear_cases [of y] DaysInYear_cases [of "y + 1"]
    by (auto simp add: DaysBeforeMonth_def)
  then show "365 \<le> MonthStart (y + 1) m - MonthStart y m"
    "MonthStart (y + 1) m - MonthStart y m \<le> 366"
    unfolding S by simp_all
qed

lemma msPerDay_pos: "0 < msPerDay"
  by (simp add: msPerDay_def)

lemma Day_split: "Day t * msPerDay + TimeWithinDay t = t"
  by (simp add: Day_def TimeWithinDay_def)

lemma set_shift:
  "MakeDate (MakeDay y m (DateFromTime t')) (TimeWithinDay t')
   = t' + (MonthStart y m - MonthStart (YearFromTime t') (MonthFromTime t')) * msPerDay"
proof -
  have "Day t' = MonthStart (YearFromTime t') (MonthFromTime t') + DateFromTime t' - 1"
    using MakeDay_roundtrip [of t'] by (simp add: MakeDay_MonthStart)
  then have e: "MakeDay y m (DateFromTime t') =
      Day t' + (MonthStart y m - MonthStart (YearFromTime t') (MonthFromTime t'))"
    by (simp add: MakeDay_MonthStart)
  have "MakeDate (MakeDay y m (DateFromTime t')) (TimeWithinDay t') =
      (Day t' + (MonthStart y m - MonthStart (YearFromTime t') (MonthFromTime t'))) * msPerDay
      + TimeWithinDay t'"
    by (simp only: MakeDate_def e)
  also have "\<dots> = (Day t' * msPerDay + TimeWithinDay t')
      + (MonthStart y m - MonthStart (YearFromTime t') (MonthFromTime t')) * msPerDay"
    by (simp only: distrib_right add.assoc add.commute)
  finally show ?thesis
    unfolding Day_split .
qed

lemma MonthStart_plus12:
  assumes "0 \<le> m" "m \<le> 11"
  shows "MonthStart y (m + 12) = MonthStart (y + 1) m"
proof -
  have "(m + 12) div 12 = 1" "(m + 12) mod 12 = m" "m div 12 = 0" "m mod 12 = m"
    using assms by simp_all
  then show ?thesis
    by (simp add: MonthStart_def)
qed

lemma addCalendarMonths_shift:
  "addCalendarMonths tz k t =
     UTC tz (LocalTime tz t
       + (MonthStart (YearFromTime (LocalTime tz t)) (MonthFromTime (LocalTime tz t) + k)
          - MonthStart (YearFromTime (LocalTime tz t)) (MonthFromTime (LocalTime tz t)))
         * msPerDay)"
  unfolding addCalendarMonths_def Let_def set_shift ..

text \<open>
  Adding calendar months moves a date forward by the days of these months, up to the two
  offsets of the zone.
\<close>

lemma addCalendarMonths_bounds:
  assumes "boundedZone tz"
  shows "t + 26 * msPerDay \<le> addCalendarMonths tz 1 t"
    "addCalendarMonths tz 1 t \<le> t + 33 * msPerDay"
    "t + 82 * msPerDay \<le> addCalendarMonths tz 3 t"
    "addCalendarMonths tz 3 t \<le> t + 95 * msPerDay"
    "t + 363 * msPerDay \<le> addCalendarMonths tz 12 t"
    "addCalendarMonths tz 12 t \<le> t + 368 * msPerDay"
proof -
  define Y where "Y = YearFromTime (LocalTime tz t)"
  define M where "M = MonthFromTime (LocalTime tz t)"
  define N where "N k = LocalTime tz t + (MonthStart Y (M + k) - MonthStart Y M) * msPerDay" for k
  have M: "0 \<le> M" "M \<le> 11"
    using MonthFromTime_range [of "LocalTime tz t"] by (simp_all add: M_def)
  have z: "\<bar>tz x b\<bar> \<le> msPerDay" for x b
    using assms by (simp add: boundedZone_def)
  have A: "addCalendarMonths tz k t = N k - tz (N k) False" for k
    by (simp add: addCalendarMonths_shift Y_def M_def N_def UTC_def)
  have lo: "t + d * msPerDay - 2 * msPerDay \<le> addCalendarMonths tz k t"
    if "d \<le> MonthStart Y (M + k) - MonthStart Y M" for d k
  proof -
    have "d * msPerDay \<le> (MonthStart Y (M + k) - MonthStart Y M) * msPerDay"
      using that msPerDay_pos by (intro mult_right_mono) simp_all
    then show ?thesis
      unfolding A using z [of t True] z [of "N k" False] by (simp add: N_def LocalTime_def)
  qed
  have hi: "addCalendarMonths tz k t \<le> t + d * msPerDay + 2 * msPerDay"
    if "MonthStart Y (M + k) - MonthStart Y M \<le> d" for d k
  proof -
    have "(MonthStart Y (M + k) - MonthStart Y M) * msPerDay \<le> d * msPerDay"
      using that msPerDay_pos by (intro mult_right_mono) simp_all
    then show ?thesis
      unfolding A using z [of t True] z [of "N k" False] by (simp add: N_def LocalTime_def)
  qed
  show "t + 26 * msPerDay \<le> addCalendarMonths tz 1 t"
    using lo [OF MonthStart_step(1) [of Y M]] by simp
  show "addCalendarMonths tz 1 t \<le> t + 33 * msPerDay"
    using hi [OF MonthStart_step(2) [of Y M]] by simp
  show "t + 82 * msPerDay \<le> addCalendarMonths tz 3 t"
    using lo [OF MonthStart_plus3(1) [of Y M]] by simp
  show "addCalendarMonths tz 3 t \<le> t + 95 * msPerDay"
    using hi [OF MonthStart_plus3(2) [of Y M]] by simp
  show "t + 363 * msPerDay \<le> addCalendarMonths tz 12 t"
    using lo [of 365 12] MonthStart_next_year(1) [OF M, of Y]
    by (simp add: MonthStart_plus12 [OF M])
  show "addCalendarMonths tz 12 t \<le> t + 368 * msPerDay"
    using hi [of 12 366] MonthStart_next_year(2) [OF M, of Y]
    by (simp add: MonthStart_plus12 [OF M])
qed

lemma setMonth_add: "setMonth tz t (getMonth tz t + k) = TimeClip (addCalendarMonths tz k t)"
  by (simp add: setMonth_def getMonth_def addCalendarMonths_def Let_def)

lemma setFullYear_add:
  "setFullYear tz t (getFullYear tz t + 1) = TimeClip (addCalendarMonths tz 12 t)"
proof -
  define t' where "t' = LocalTime tz t"
  have M: "0 \<le> MonthFromTime t'" "MonthFromTime t' \<le> 11"
    using MonthFromTime_range [of t'] by simp_all
  have "MakeDay (YearFromTime t' + 1) (MonthFromTime t') (DateFromTime t') =
      MakeDay (YearFromTime t') (MonthFromTime t' + 12) (DateFromTime t')"
    by (simp add: MakeDay_MonthStart MonthStart_plus12 [OF M])
  then show ?thesis
    by (simp add: setFullYear_def getFullYear_def addCalendarMonths_def Let_def t'_def)
qed

text \<open>
  Across the start of daylight saving the offset of the result is the one in force at the
  new local time: three months after 2023-12-15 07:00 eastern time (12:00 UTC) is
  2024-03-15 07:00 eastern time, which is 11:00 UTC.
\<close>

lemma setMonth_across_daylight_saving:
  "setMonth easternZone 1702641600000 (getMonth easternZone 1702641600000 + 3)
     = Some 1710500400000"
  by code_simp

lemma boundedZone_examples: "boundedZone utcZone" "boundedZone easternZone"
  by (simp_all add: boundedZone_def utcZone_def easternZone_def msPerDay_def)

text \<open>
  The definitions meet the standard's descriptions: \<open>YearFromDay\<close> is the only year whose
  days contain the day, and the day that \<open>MakeDay\<close> builds for the first of a month has
  that year, that month and the date 1.
\<close>

lemma DayFromYear_strict_mono:
  assumes "y < y'"
  shows "DayFromYear y < DayFromYear y'"
proof -
  have "400 * DayFromYear y \<le> 146097 * (y - 1970) + 589"
    by (rule DayFromYear_linear)
  moreover have "146097 * (y' - 1970) - 506 \<le> 400 * DayFromYear y'"
    by (rule DayFromYear_linear)
  moreover have "146097 * (y - 1970) + 146097 \<le> 146097 * (y' - 1970)"
    using assms by simp
  ultimately have "400 * DayFromYear y < 400 * DayFromYear y'"
    by linarith
  then show ?thesis
    by simp
qed

lemma YearFromDay_unique:
  assumes "DayFromYear y \<le> d" and "d < DayFromYear (y + 1)"
  shows "YearFromDay d = y"
proof (rule ccontr)
  assume n: "YearFromDay d \<noteq> y"
  note B = YearFromDay_bounds [of d]
  show False
  proof (cases "YearFromDay d < y")
    case True
    then have "DayFromYear (YearFromDay d + 1) \<le> DayFromYear y"
      using DayFromYear_strict_mono [of "YearFromDay d + 1" y]
      by (cases "YearFromDay d + 1 = y") simp_all
    then show False
      using B(2) assms(1) by linarith
  next
    case False
    then have "y < YearFromDay d"
      using n by simp
    then have "DayFromYear (y + 1) \<le> DayFromYear (YearFromDay d)"
      using DayFromYear_strict_mono [of "y + 1" "YearFromDay d"]
      by (cases "y + 1 = YearFromDay d") simp_all
    then show False
      using B(1) assms(2) by linarith
  qed
qed

lemma Day_first:
  "Day (d * msPerDay) = d" "TimeWithinDay (d * msPerDay) = 0"
  using msPerDay_pos by (simp_all add: Day_def TimeWithinDay_def)

lemma DaysBeforeMonth_range:
  assumes "0 \<le> mn" "mn \<le> 11"
  shows "0 \<le> DaysBeforeMonth y mn" "DaysBeforeMonth y mn < DaysInYear y"
proof -
  have c: "mn = 0 \<or> mn = 1 \<or> mn = 2 \<or> mn = 3 \<or> mn = 4 \<or> mn = 5 \<or> mn = 6 \<or> mn = 7
      \<or> mn = 8 \<or> mn = 9 \<or> mn = 10 \<or> mn = 11"
    using assms by arith
  show "0 \<le> DaysBeforeMonth y mn"
    by (simp add: DaysBeforeMonth_def)
  show "DaysBeforeMonth y mn < DaysInYear y"
    using c DaysInYear_cases [of y] by (auto simp add: DaysBeforeMonth_def)
qed

lemma MakeDay_first_of_month:
  assumes "0 \<le> mn" "mn \<le> 11"
  shows "YearFromTime (MakeDate (MakeDay ym mn 1) 0) = ym"
    "MonthFromTime (MakeDate (MakeDay ym mn 1) 0) = mn"
    "DateFromTime (MakeDate (MakeDay ym mn 1) 0) = 1"
proof -
  define t where "t = MakeDate (MakeDay ym mn 1) 0"
  have d: "mn div 12 = 0" "mn mod 12 = mn"
    using assms(1,2) by simp_all
  have D: "Day t = DayFromYear ym + DaysBeforeMonth ym mn"
    by (simp add: t_def MakeDate_def MakeDay_def d Day_first)
  note R = DaysBeforeMonth_range [OF assms(1,2), of ym]
  have Y: "YearFromTime t = ym"
    unfolding YearFromTime_def D
    by (rule YearFromDay_unique) (use R in \<open>simp_all add: DayFromYear_step\<close>)
  have W: "DayWithinYear t = DaysBeforeMonth ym mn"
    by (simp add: DayWithinYear_def Y D)
  have c: "mn = 0 \<or> mn = 1 \<or> mn = 2 \<or> mn = 3 \<or> mn = 4 \<or> mn = 5 \<or> mn = 6 \<or> mn = 7
      \<or> mn = 8 \<or> mn = 9 \<or> mn = 10 \<or> mn = 11"
    using assms(1,2) by arith
  have M: "MonthFromTime t = mn"
    using c by (auto simp add: MonthFromTime_def W InLeapYear_def Y DaysBeforeMonth_def)
  have T: "DateFromTime t = 1"
    using c by (auto simp add: DateFromTime_def M W InLeapYear_def Y DaysBeforeMonth_def)
  show "YearFromTime (MakeDate (MakeDay ym mn 1) 0) = ym"
    "MonthFromTime (MakeDate (MakeDay ym mn 1) 0) = mn"
    "DateFromTime (MakeDate (MakeDay ym mn 1) 0) = 1"
    using Y M T by (simp_all add: t_def)
qed


section \<open>The membership window\<close>

lemma TimeClip_Some: "- maxTime \<le> t \<Longrightarrow> t \<le> maxTime \<Longrightarrow> TimeClip t = Some t"
  by (simp add: TimeClip_def maxTime_def)

lemma planMonths_cases:
  assumes "p \<in> set membershipTypes"
  shows "p = ''monthly'' \<and> planMonths p = 1 \<or> p = ''quarterly'' \<and> planMonths p = 3
    \<or> p = ''yearly'' \<and> planMonths p = 12"
  using assms by (auto simp add: membershipTypes_def planMonths_def)

lemma membershipDates_plan:
  assumes "p \<in> set membershipTypes"
  shows "membershipDates tz (Some p) now1 now2 =
    (now1, TimeClip (addCalendarMonths tz (planMonths p) now2))"
  using planMonths_cases [OF assms]
  by (elim disjE conjE)
    (simp_all add: membershipDates_def setMonth_add setFullYear_add)

lemma addCalendarMonths_plan:
  assumes "p \<in> set membershipTypes" and "boundedZone tz"
  shows "t < addCalendarMonths tz (planMonths p) t"
    "addCalendarMonths tz (planMonths p) t \<le> t + 368 * msPerDay"
proof -
  note B = addCalendarMonths_bounds [OF assms(2), where t = t]
  have "t < addCalendarMonths tz (planMonths p) t
      \<and> addCalendarMonths tz (planMonths p) t \<le> t + 368 * msPerDay"
    using planMonths_cases [OF assms(1)] B msPerDay_pos
    by (elim disjE conjE) simp_all
  then show "t < addCalendarMonths tz (planMonths p) t"
    "addCalendarMonths tz (planMonths p) t \<le> t + 368 * msPerDay"
    by simp_all
qed

text \<open>
  What lines 355 to 364 compute, for every plan and every pair of clock readings: \<open>now1\<close>
  is the reading of \<^verbatim>\<open>const startDate = new Date()\<close> and \<open>now2\<close> the reading of
  \<^verbatim>\<open>let endDate = new Date()\<close>, which is not before \<open>now1\<close>. The window starts at the first
  reading and ends, strictly later, at the second reading plus the calendar months of the
  plan. The end is the start plus these months only when the two readings are the same
  millisecond.
\<close>

lemma membershipDates_readings:
  assumes "p \<in> set membershipTypes" and "boundedZone tz" and "now1 \<le> now2"
    and "- maxTime \<le> now2" and "now2 + 368 * msPerDay \<le> maxTime"
  shows "membershipDates tz (Some p) now1 now2
      = (now1, Some (addCalendarMonths tz (planMonths p) now2))"
    "now1 < addCalendarMonths tz (planMonths p) now2"
proof -
  note B = addCalendarMonths_plan [OF assms(1,2), where t = now2]
  have "TimeClip (addCalendarMonths tz (planMonths p) now2) =
      Some (addCalendarMonths tz (planMonths p) now2)"
    using B assms(4,5) by (intro TimeClip_Some) simp_all
  then show "membershipDates tz (Some p) now1 now2
      = (now1, Some (addCalendarMonths tz (planMonths p) now2))"
    by (simp add: membershipDates_plan [OF assms(1)])
  show "now1 < addCalendarMonths tz (planMonths p) now2"
    using B(1) assms(3) by simp
qed

lemma membershipDates_one_reading:
  assumes "p \<in> set membershipTypes" and "boundedZone tz"
    and "- maxTime \<le> d" and "d + 368 * msPerDay \<le> maxTime"
  shows "membershipDates tz (Some p) d d = (d, Some (addCalendarMonths tz (planMonths p) d))"
    "d < addCalendarMonths tz (planMonths p) d"
  using membershipDates_readings [OF assms(1,2) order_refl assms(3,4)] by simp_all

text \<open>
  Claim C4. The window of a plan at a date \<open>d\<close> must start at \<open>d\<close> and end at \<open>d\<close> plus
  1 calendar month, 3 calendar months or 1 calendar year, with the platform's rolling of a
  date beyond the month's end. The handler does not compute this window: it takes the
  start from one clock reading and adds the months to a second one. When midnight of
  2024-02-01 UTC falls between the two readings, the monthly window that starts on
  2024-01-31 23:59:59.999 ends on 2024-03-01 00:00:00.000, whereas the start plus one
  calendar month is 2024-03-02 23:59:59.999 (the 31st of February rolls over the 29 days
  of that month).
\<close>

theorem membershipDates_second_reading:
  "membershipDates utcZone (Some ''monthly'') 1706745599999 1706745600000
     = (1706745599999, Some 1709251200000)
   \<and> addCalendarMonths utcZone (planMonths ''monthly'') 1706745599999 = 1709423999999"
  by code_simp

section \<open>Rounding to the nearest double\<close>

text \<open>
  The rounding is monotone, exact on the integers up to \<open>2\<^sup>5\<^sup>3\<close> and has a relative error
  of at most \<open>2\<^sup>-\<^sup>5\<^sup>3\<close> on the normal range. \<open>exponent64_eq\<close> computes the exponent of a
  given number; beyond \<open>2\<^sup>5\<^sup>3\<close> an odd integer is not a double.
\<close>

lemma roundHalfEven_int: "roundHalfEven (real_of_int k) = k"
  by (simp add: roundHalfEven_def)

lemma roundHalfEven_bounds:
  "real_of_int (roundHalfEven z) \<le> z + 1 / 2" "z - 1 / 2 \<le> real_of_int (roundHalfEven z)"
  "\<lfloor>z\<rfloor> \<le> roundHalfEven z" "roundHalfEven z \<le> \<lfloor>z\<rfloor> + 1"
  unfolding roundHalfEven_def Let_def by (auto; linarith)+

lemma roundHalfEven_error: "\<bar>real_of_int (roundHalfEven z) - z\<bar> \<le> 1 / 2"
  using roundHalfEven_bounds(1,2) [of z] by linarith

lemma roundHalfEven_mono:
  assumes "z \<le> w"
  shows "roundHalfEven z \<le> roundHalfEven w"
proof (cases "\<lfloor>z\<rfloor> = \<lfloor>w\<rfloor>")
  case True
  then show ?thesis
    using assms unfolding roundHalfEven_def Let_def by auto
next
  case False
  then have "\<lfloor>z\<rfloor> + 1 \<le> \<lfloor>w\<rfloor>"
    using floor_mono [OF assms] by linarith
  then show ?thesis
    using roundHalfEven_bounds(4) [of z] roundHalfEven_bounds(3) [of w] by linarith
qed

lemma roundHalfEven_minus: "roundHalfEven (- z) = - roundHalfEven z"
proof (cases "z \<in> \<int>")
  case True
  then obtain k where "z = real_of_int k"
    by (auto elim: Ints_cases)
  then show ?thesis
    using roundHalfEven_int [of k] roundHalfEven_int [of "- k"] by simp
next
  case False
  define f where "f = \<lfloor>z\<rfloor>"
  have "real_of_int f \<noteq> z"
    using False by (metis Ints_of_int)
  moreover have "real_of_int f \<le> z" "z < real_of_int f + 1"
    unfolding f_def by linarith+
  ultimately have f: "real_of_int f < z" "z < real_of_int f + 1"
    by simp_all
  have m: "\<lfloor>- z\<rfloor> = - f - 1"
    using f by (intro floor_unique) simp_all
  show ?thesis
    unfolding roundHalfEven_def Let_def m unfolding f_def [symmetric]
    using f by auto
qed
lemma exponent_bounds:
  assumes "x \<noteq> 0"
  shows "2 powr real_of_int \<lfloor>log 2 \<bar>x\<bar>\<rfloor> \<le> \<bar>x\<bar>"
    "\<bar>x\<bar> < 2 powr real_of_int (\<lfloor>log 2 \<bar>x\<bar>\<rfloor> + 1)"
proof -
  have x: "0 < \<bar>x\<bar>"
    using assms by simp
  have "real_of_int \<lfloor>log 2 \<bar>x\<bar>\<rfloor> \<le> log 2 \<bar>x\<bar>"
    by simp
  then show "2 powr real_of_int \<lfloor>log 2 \<bar>x\<bar>\<rfloor> \<le> \<bar>x\<bar>"
    using le_log_iff [of 2 "\<bar>x\<bar>" "real_of_int \<lfloor>log 2 \<bar>x\<bar>\<rfloor>"] x by simp
  have "log 2 \<bar>x\<bar> < real_of_int (\<lfloor>log 2 \<bar>x\<bar>\<rfloor> + 1)"
    by simp
  then show "\<bar>x\<bar> < 2 powr real_of_int (\<lfloor>log 2 \<bar>x\<bar>\<rfloor> + 1)"
    using log_less_iff [of 2 "\<bar>x\<bar>" "real_of_int (\<lfloor>log 2 \<bar>x\<bar>\<rfloor> + 1)"] x by simp
qed

lemma binary64_zero: "binary64 0 = 0"
  by (simp add: binary64_def)

lemma ulp64_minus: "ulp64 (- x) = ulp64 x"
  by (simp add: ulp64_def exponent64_def)

lemma binary64_minus: "binary64 (- x) = - binary64 x"
  by (simp add: binary64_def ulp64_minus roundHalfEven_minus)

lemma ulp64_pos: "0 < ulp64 x"
  by (simp add: ulp64_def)

lemma ulp64_scale:
  "2 ^ 52 * ulp64 x = 2 powr real_of_int (exponent64 x)"
  "2 ^ 53 * ulp64 x = 2 powr real_of_int (exponent64 x + 1)"
proof -
  have a: "(2 :: real) ^ 52 = 2 powr real_of_int 52" "(2 :: real) ^ 53 = 2 powr real_of_int 53"
    using powr_realpow [of "2 :: real" 52] powr_realpow [of "2 :: real" 53] by simp_all
  show "2 ^ 52 * ulp64 x = 2 powr real_of_int (exponent64 x)"
    unfolding a ulp64_def powr_add [symmetric] by simp
  show "2 ^ 53 * ulp64 x = 2 powr real_of_int (exponent64 x + 1)"
    unfolding a ulp64_def powr_add [symmetric] by (simp add: add.commute)
qed

lemma binary64_upper:
  assumes "0 < x"
  shows "binary64 x \<le> 2 powr real_of_int (exponent64 x + 1)"
proof -
  have "x < 2 powr real_of_int (\<lfloor>log 2 \<bar>x\<bar>\<rfloor> + 1)"
    using exponent_bounds(2) [of x] assms by simp
  also have "\<dots> \<le> 2 powr real_of_int (exponent64 x + 1)"
    by (intro powr_mono) (simp_all add: exponent64_def)
  finally have "x < 2 ^ 53 * ulp64 x"
    by (simp only: ulp64_scale)
  then have "x / ulp64 x \<le> real_of_int (2 ^ 53)"
    using ulp64_pos [of x] by (simp add: field_simps)
  then have "roundHalfEven (x / ulp64 x) \<le> 2 ^ 53"
    using roundHalfEven_mono roundHalfEven_int [of "2 ^ 53"] by metis
  then have "real_of_int (roundHalfEven (x / ulp64 x)) \<le> real_of_int (2 ^ 53)"
    by (simp only: of_int_le_iff)
  then have "real_of_int (roundHalfEven (x / ulp64 x)) * ulp64 x \<le> 2 ^ 53 * ulp64 x"
    using ulp64_pos [of x] by (intro mult_right_mono) simp_all
  then show ?thesis
    using assms by (simp only: ulp64_scale binary64_def) simp
qed

lemma binary64_lower:
  assumes "0 < x" and "- 1022 \<le> \<lfloor>log 2 \<bar>x\<bar>\<rfloor>"
  shows "2 powr real_of_int (exponent64 x) \<le> binary64 x"
proof -
  have e: "exponent64 x = \<lfloor>log 2 \<bar>x\<bar>\<rfloor>"
    using assms(2) by (simp add: exponent64_def)
  have "2 powr real_of_int (exponent64 x) \<le> x"
    using exponent_bounds(1) [of x] assms(1) by (simp add: e)
  then have "2 ^ 52 * ulp64 x \<le> x"
    by (simp only: ulp64_scale)
  then have "real_of_int (2 ^ 52) \<le> x / ulp64 x"
    using ulp64_pos [of x] by (simp add: field_simps)
  then have "2 ^ 52 \<le> roundHalfEven (x / ulp64 x)"
    using roundHalfEven_mono roundHalfEven_int [of "2 ^ 52"] by metis
  then have "real_of_int (2 ^ 52) \<le> real_of_int (roundHalfEven (x / ulp64 x))"
    by (simp only: of_int_le_iff)
  then have "2 ^ 52 * ulp64 x \<le> real_of_int (roundHalfEven (x / ulp64 x)) * ulp64 x"
    using ulp64_pos [of x] by (intro mult_right_mono) simp_all
  then show ?thesis
    using assms(1) by (simp only: ulp64_scale binary64_def) simp
qed

lemma binary64_nonneg:
  assumes "0 \<le> x"
  shows "0 \<le> binary64 x"
proof -
  have "0 \<le> x / ulp64 x"
    using assms ulp64_pos [of x] by simp
  then have "0 \<le> roundHalfEven (x / ulp64 x)"
    using roundHalfEven_mono [of 0 "x / ulp64 x"] roundHalfEven_int [of 0] by simp
  then show ?thesis
    using ulp64_pos [of x] by (simp add: binary64_def)
qed

lemma exponent64_mono:
  assumes "0 < x" and "x \<le> y"
  shows "exponent64 x \<le> exponent64 y"
proof -
  have "log 2 \<bar>x\<bar> \<le> log 2 \<bar>y\<bar>"
    using assms by simp
  then have "\<lfloor>log 2 \<bar>x\<bar>\<rfloor> \<le> \<lfloor>log 2 \<bar>y\<bar>\<rfloor>"
    by (rule floor_mono)
  then show ?thesis
    by (simp add: exponent64_def)
qed

lemma binary64_mono_pos:
  assumes "0 < x" and "x \<le> y"
  shows "binary64 x \<le> binary64 y"
proof (cases "exponent64 x = exponent64 y")
  case True
  then have u: "ulp64 x = ulp64 y"
    by (simp add: ulp64_def)
  have "x / ulp64 y \<le> y / ulp64 y"
    using assms(2) ulp64_pos [of y] by (intro divide_right_mono) simp_all
  then have "roundHalfEven (x / ulp64 y) \<le> roundHalfEven (y / ulp64 y)"
    by (rule roundHalfEven_mono)
  then have "real_of_int (roundHalfEven (x / ulp64 y)) \<le> real_of_int (roundHalfEven (y / ulp64 y))"
    by (simp only: of_int_le_iff)
  then have "real_of_int (roundHalfEven (x / ulp64 y)) * ulp64 y
      \<le> real_of_int (roundHalfEven (y / ulp64 y)) * ulp64 y"
    using ulp64_pos [of y] by (intro mult_right_mono) simp_all
  then show ?thesis
    using assms by (simp add: binary64_def u)
next
  case False
  then have l: "exponent64 x + 1 \<le> exponent64 y"
    using exponent64_mono [OF assms] by simp
  define f where "f = \<lfloor>log 2 \<bar>y\<bar>\<rfloor>"
  have "- 1022 \<le> exponent64 x"
    by (simp add: exponent64_def)
  moreover have "exponent64 y = max f (- 1022)"
    by (simp add: exponent64_def f_def)
  ultimately have "- 1022 \<le> f"
    using l by linarith
  then have "- 1022 \<le> \<lfloor>log 2 \<bar>y\<bar>\<rfloor>"
    by (simp only: f_def)
  then have "2 powr real_of_int (exponent64 y) \<le> binary64 y"
    using assms by (intro binary64_lower) simp_all
  moreover have "binary64 x \<le> 2 powr real_of_int (exponent64 x + 1)"
    by (rule binary64_upper [OF assms(1)])
  moreover have "2 powr real_of_int (exponent64 x + 1) \<le> 2 powr real_of_int (exponent64 y)"
    using l by (intro powr_mono) simp_all
  ultimately show ?thesis
    by linarith
qed

lemma binary64_mono:
  assumes "x \<le> y"
  shows "binary64 x \<le> binary64 y"
proof -
  consider "0 < x" | "x \<le> 0" "0 \<le> y" | "y < 0"
    using assms by linarith
  then show ?thesis
  proof cases
    case 1
    then show ?thesis
      by (rule binary64_mono_pos [OF _ assms])
  next
    case 2
    have "0 \<le> binary64 (- x)"
      using 2(1) by (intro binary64_nonneg) simp
    then have "binary64 x \<le> 0"
      by (simp add: binary64_minus)
    then show ?thesis
      using binary64_nonneg [OF 2(2)] by linarith
  next
    case 3
    have "binary64 (- y) \<le> binary64 (- x)"
      using 3 assms by (intro binary64_mono_pos) simp_all
    then show ?thesis
      by (simp add: binary64_minus)
  qed
qed

lemma binary64_error:
  assumes "1 / 2 ^ 1022 \<le> \<bar>x\<bar>"
  shows "\<bar>binary64 x - x\<bar> \<le> \<bar>x\<bar> / 2 ^ 53"
proof -
  have x: "x \<noteq> 0"
    using assms by auto
  have p: "(1 :: real) / 2 ^ 1022 = 2 powr real_of_int (- 1022)"
    using powr_realpow [of "2 :: real" 1022] by (simp add: powr_minus field_simps)
  have "real_of_int (- 1022) \<le> log 2 \<bar>x\<bar>"
    using le_log_iff [of 2 "\<bar>x\<bar>" "real_of_int (- 1022)"] assms x unfolding p by simp
  then have "- 1022 \<le> \<lfloor>log 2 \<bar>x\<bar>\<rfloor>"
    by (simp only: le_floor_iff)
  then have e: "exponent64 x = \<lfloor>log 2 \<bar>x\<bar>\<rfloor>"
    by (simp add: exponent64_def)
  have "2 ^ 52 * ulp64 x \<le> \<bar>x\<bar>"
    using exponent_bounds(1) [OF x] by (simp only: ulp64_scale e)
  then have u: "ulp64 x / 2 \<le> \<bar>x\<bar> / 2 ^ 53"
    by simp
  have "binary64 x - x = (real_of_int (roundHalfEven (x / ulp64 x)) - x / ulp64 x) * ulp64 x"
    using x ulp64_pos [of x] by (simp add: binary64_def field_simps)
  then have "\<bar>binary64 x - x\<bar> = \<bar>real_of_int (roundHalfEven (x / ulp64 x)) - x / ulp64 x\<bar> * ulp64 x"
    using ulp64_pos [of x] by (simp add: abs_mult)
  also have "\<dots> \<le> 1 / 2 * ulp64 x"
    using ulp64_pos [of x] roundHalfEven_error [of "x / ulp64 x"] by (intro mult_right_mono) simp_all
  finally show ?thesis
    using u by simp
qed

lemma binary64_int:
  assumes "\<bar>n\<bar> \<le> 2 ^ 53"
  shows "binary64 (real_of_int n) = real_of_int n"
proof (cases "n = 0")
  case True
  then show ?thesis
    by (simp add: binary64_zero)
next
  case False
  define x where "x = real_of_int n"
  have x: "x \<noteq> 0" "1 \<le> \<bar>x\<bar>" "\<bar>x\<bar> \<le> 2 ^ 53"
  proof -
    show "x \<noteq> 0"
      using False by (simp add: x_def)
    have "1 \<le> \<bar>n\<bar>"
      using False by simp
    then have "real_of_int 1 \<le> real_of_int \<bar>n\<bar>"
      by (simp only: of_int_le_iff)
    then show "1 \<le> \<bar>x\<bar>"
      by (simp add: x_def)
    have "real_of_int \<bar>n\<bar> \<le> real_of_int (2 ^ 53)"
      using assms by (simp only: of_int_le_iff)
    then show "\<bar>x\<bar> \<le> 2 ^ 53"
      by (simp add: x_def)
  qed
  define e where "e = \<lfloor>log 2 \<bar>x\<bar>\<rfloor>"
  have "0 \<le> log 2 \<bar>x\<bar>"
    using x(2) by simp
  then have e0: "0 \<le> e"
    by (simp add: e_def)
  have "\<bar>x\<bar> \<le> 2 powr real_of_int 53"
    using x(3) powr_realpow [of "2 :: real" 53] by simp
  then have "log 2 \<bar>x\<bar> \<le> 53"
    using log_le_iff [of 2 "\<bar>x\<bar>" "real_of_int 53"] x(1) by simp
  then have e53: "e \<le> 53"
    unfolding e_def by (simp add: floor_le_iff)
  have E: "exponent64 x = e"
    using e0 by (simp add: exponent64_def e_def)
  have "\<exists>k. x / ulp64 x = real_of_int k"
  proof (cases "e \<le> 52")
    case True
    have "x / ulp64 x = x * 2 powr real_of_int (52 - e)"
      by (simp add: ulp64_def E powr_diff field_simps)
    also have "2 powr real_of_int (52 - e) = 2 ^ nat (52 - e)"
      using True powr_realpow [of "2 :: real" "nat (52 - e)"] by simp
    finally have "x / ulp64 x = real_of_int (n * 2 ^ nat (52 - e))"
      by (simp add: x_def)
    then show ?thesis
      by blast
  next
    case False
    then have e: "e = 53"
      using e53 by simp
    have "2 powr real_of_int e \<le> \<bar>x\<bar>"
      unfolding e_def by (rule exponent_bounds(1) [OF x(1)])
    then have "2 ^ 53 \<le> \<bar>x\<bar>"
      using powr_realpow [of "2 :: real" 53] by (simp add: e)
    then have "\<bar>x\<bar> = 2 ^ 53"
      using x(3) by simp
    then have "x = real_of_int (2 ^ 53) \<or> x = real_of_int (- (2 ^ 53))"
      by (simp add: abs_if split: if_splits)
    moreover have "ulp64 x = 2"
      using powr_realpow [of "2 :: real" 1] by (simp add: ulp64_def E e)
    ultimately have "x / ulp64 x = real_of_int (2 ^ 52) \<or> x / ulp64 x = real_of_int (- (2 ^ 52))"
      by auto
    then show ?thesis
      by blast
  qed
  then obtain k where k: "x / ulp64 x = real_of_int k"
    by blast
  have "binary64 x = real_of_int k * ulp64 x"
    using x(1) by (simp add: binary64_def k roundHalfEven_int)
  also have "\<dots> = x"
    using k ulp64_pos [of x] by (simp add: field_simps)
  finally show ?thesis
    by (simp add: x_def)
qed

lemma binary64_roundsToNearest: "roundsToNearest binary64"
  unfolding roundsToNearest_def
  using binary64_mono binary64_int binary64_error by blast

lemma exponent64_eq:
  assumes "2 powr real_of_int e \<le> \<bar>x\<bar>" and "\<bar>x\<bar> < 2 powr real_of_int (e + 1)"
    and "- 1022 \<le> e"
  shows "exponent64 x = e"
proof -
  have "0 < 2 powr real_of_int e"
    by simp
  then have x: "0 < \<bar>x\<bar>"
    using assms(1) by linarith
  have "real_of_int e \<le> log 2 \<bar>x\<bar>"
    using le_log_iff [of 2 "\<bar>x\<bar>" "real_of_int e"] x assms(1) by simp
  moreover have "log 2 \<bar>x\<bar> < real_of_int (e + 1)"
    using log_less_iff [of 2 "\<bar>x\<bar>" "real_of_int (e + 1)"] x assms(2) by simp
  ultimately have "\<lfloor>log 2 \<bar>x\<bar>\<rfloor> = e"
    by (intro floor_unique) simp_all
  then show ?thesis
    using assms(3) by (simp add: exponent64_def)
qed

lemma binary64_beyond_53: "binary64 12960000000000001 = 12960000000000000"
proof -
  have p: "2 powr real_of_int 53 = 2 ^ 53" "2 powr real_of_int (53 + 1) = 2 ^ 54"
    using powr_realpow [of "2 :: real" 53] powr_realpow [of "2 :: real" 54] by simp_all
  have "exponent64 12960000000000001 = 53"
    by (rule exponent64_eq) (simp_all only: p, simp_all)
  then have u: "ulp64 12960000000000001 = 2"
    using powr_realpow [of "2 :: real" 1] by (simp add: ulp64_def)
  have f: "\<lfloor>12960000000000001 / 2 :: real\<rfloor> = 6480000000000000"
    by simp
  have "roundHalfEven (12960000000000001 / 2) = 6480000000000000"
    unfolding roundHalfEven_def Let_def f by simp
  then show ?thesis
    by (simp add: binary64_def u)
qed

section \<open>Days remaining\<close>

text \<open>
  The ceiling of a time difference in whole days is the least number of days that covers
  it.
\<close>

lemma ceiling_days:
  fixes a :: int
  defines "c \<equiv> \<lceil>real_of_int a / real_of_int msPerDay\<rceil>"
  shows "a \<le> max 0 c * msPerDay" "0 < max 0 c \<Longrightarrow> (max 0 c - 1) * msPerDay < a"
proof -
  define q where "q = (- a) div msPerDay"
  define m where "m = (- a) mod msPerDay"
  have s: "- a = q * msPerDay + m"
    by (simp add: q_def m_def)
  have m: "0 \<le> m" "m < msPerDay"
    using msPerDay_pos by (simp_all add: m_def)
  have lo: "q * msPerDay \<le> - a" and hi: "- a < q * msPerDay + msPerDay"
    using s m by simp_all
  have c: "c = - q"
    unfolding c_def q_def by (rule ceiling_divide_eq_div)
  show "a \<le> max 0 c * msPerDay"
  proof (cases "0 \<le> - q")
    case True
    then show ?thesis using lo by (simp add: c max_def)
  next
    case False
    then have "1 \<le> q" by simp
    then have "msPerDay \<le> q * msPerDay"
      using mult_right_mono [of 1 q msPerDay] msPerDay_pos by simp
    then have "a \<le> 0"
      using lo msPerDay_pos by linarith
    then show ?thesis using False by (simp add: c max_def)
  qed
  show "(max 0 c - 1) * msPerDay < a" if "0 < max 0 c"
    using that hi by (simp add: c max_def algebra_simps split: if_splits)
qed

text \<open>
  For a difference of less than \<open>2\<^sup>5\<^sup>3\<close> milliseconds (285 thousand years) the two rounded
  operations give the ceiling of the exact quotient: the difference is a number, and the
  quotient of an integer by the milliseconds of a day is either an integer or is further
  from every integer than the rounding error.
\<close>

lemma double_quotient_exact:
  assumes "roundsToNearest fl" and "\<bar>a\<bar> < 2 ^ 53"
  shows "\<lceil>fl (fl (real_of_int a) / real_of_int msPerDay)\<rceil>
    = \<lceil>real_of_int a / real_of_int msPerDay\<rceil>"
proof -
  define D where "D = real_of_int msPerDay"
  define P where "P = (2 :: real) ^ 53"
  define q where "q = real_of_int a / D"
  define n where "n = \<lceil>q\<rceil>"
  have D: "1 \<le> D" "D \<le> P"
    by (simp_all add: D_def P_def msPerDay_def)
  have P: "0 < P"
    by (simp add: P_def)
  have mono: "fl x \<le> fl y" if "x \<le> y" for x y
    using assms(1) that by (simp add: roundsToNearest_def)
  have int: "fl (real_of_int k) = real_of_int k" if "\<bar>k\<bar> \<le> 2 ^ 53" for k :: int
    using assms(1) that by (simp add: roundsToNearest_def)
  have err: "\<bar>fl x - x\<bar> \<le> \<bar>x\<bar> / P" if "1 / 2 ^ 1022 \<le> \<bar>x\<bar>" "\<bar>x\<bar> \<le> 2 ^ 1023" for x
    using assms(1) that by (simp add: roundsToNearest_def P_def)
  have a: "fl (real_of_int a) = real_of_int a"
    using assms(2) by (intro int) simp
  have aP: "\<bar>real_of_int a\<bar> < P"
  proof -
    have "real_of_int \<bar>a\<bar> < real_of_int (2 ^ 53)"
      using assms(2) by (simp only: of_int_less_iff)
    then show ?thesis
      by (simp add: P_def)
  qed
  have qa: "\<bar>q\<bar> = \<bar>real_of_int a\<bar> / D"
    using D by (simp add: q_def)
  have qP: "\<bar>q\<bar> < P"
  proof -
    have "\<bar>real_of_int a\<bar> / D \<le> \<bar>real_of_int a\<bar> / 1"
      using D by (intro divide_left_mono) simp_all
    then show ?thesis
      using aP qa by simp
  qed
  have n1: "real_of_int n - 1 < q" and n2: "q \<le> real_of_int n"
    unfolding n_def by linarith+
  have nb: "\<bar>n\<bar> \<le> 2 ^ 53"
  proof -
    have "q \<le> real_of_int (2 ^ 53)" "real_of_int (- (2 ^ 53)) \<le> q"
      using qP by (simp_all add: P_def)
    then have "n \<le> 2 ^ 53" "- (2 ^ 53) \<le> n"
      unfolding n_def by (simp_all add: ceiling_le_iff le_ceiling_iff)
    then show ?thesis
      by simp
  qed
  have up: "fl q \<le> real_of_int n"
    using mono [OF n2] int [OF nb] by simp
  have gap: "real_of_int n - 1 + 1 / D \<le> q"
  proof -
    have "real_of_int (n - 1) * D < real_of_int a"
      using n1 D by (simp add: q_def field_simps)
    then have "real_of_int ((n - 1) * msPerDay) < real_of_int a"
      by (simp add: D_def)
    then have "(n - 1) * msPerDay < a"
      by (simp only: of_int_less_iff)
    then have "(n - 1) * msPerDay + 1 \<le> a"
      by simp
    then have "real_of_int ((n - 1) * msPerDay + 1) \<le> real_of_int a"
      by (simp only: of_int_le_iff)
    then have "real_of_int (n - 1) * D + 1 \<le> real_of_int a"
      by (simp add: D_def)
    then have "(real_of_int (n - 1) * D + 1) / D \<le> real_of_int a / D"
      using D by (intro divide_right_mono) simp_all
    moreover have "(real_of_int (n - 1) * D + 1) / D = real_of_int n - 1 + 1 / D"
      using D by (simp add: add_divide_distrib)
    ultimately show ?thesis
      by (simp add: q_def)
  qed
  have low: "real_of_int n - 1 < fl q"
  proof (cases "a = 0")
    case True
    then have "q = 0" "n = 0"
      by (simp_all add: q_def n_def)
    moreover have "fl 0 = 0"
      using int [of 0] by simp
    ultimately show ?thesis
      by simp
  next
    case False
    then have "1 \<le> \<bar>a\<bar>"
      by simp
    then have "real_of_int 1 \<le> real_of_int \<bar>a\<bar>"
      by (simp only: of_int_le_iff)
    then have "1 \<le> \<bar>real_of_int a\<bar>"
      by simp
    then have q1: "1 / D \<le> \<bar>q\<bar>"
      unfolding qa using D by (intro divide_right_mono) simp_all
    have "P \<le> (2 :: real) ^ 1022"
      unfolding P_def by (intro power_increasing) simp_all
    then have "1 / 2 ^ 1022 \<le> 1 / D"
      using D by (intro frac_le) simp_all
    then have r1: "1 / 2 ^ 1022 \<le> \<bar>q\<bar>"
      using q1 by simp
    have "P \<le> (2 :: real) ^ 1023"
      unfolding P_def by (intro power_increasing) simp_all
    then have r2: "\<bar>q\<bar> \<le> 2 ^ 1023"
      using qP by simp
    have "\<bar>q\<bar> / P < 1 / D"
      unfolding qa using aP D P by (simp add: field_simps)
    then have "\<bar>fl q - q\<bar> < 1 / D"
      using err [OF r1 r2] by simp
    then show ?thesis
      using gap by linarith
  qed
  have "\<lceil>fl q\<rceil> = n"
    by (rule ceiling_unique) (use low up in simp_all)
  then show ?thesis
    by (simp add: a q_def n_def D_def)
qed

lemma roundsToNearest_zero:
  assumes "roundsToNearest fl"
  shows "fl 0 = 0"
proof -
  have "fl (real_of_int 0) = real_of_int 0"
    using assms unfolding roundsToNearest_def by (metis abs_zero zero_le_numeral zero_le_power)
  then show ?thesis
    by simp
qed

lemma double_quotient_mono:
  assumes "roundsToNearest fl" and "now \<le> now'"
  shows "\<lceil>fl (fl (real_of_int e - real_of_int now') / real_of_int msPerDay)\<rceil>
    \<le> \<lceil>fl (fl (real_of_int e - real_of_int now) / real_of_int msPerDay)\<rceil>"
proof -
  have mono: "fl x \<le> fl y" if "x \<le> y" for x y
    using assms(1) that by (simp add: roundsToNearest_def)
  have "fl (real_of_int e - real_of_int now') \<le> fl (real_of_int e - real_of_int now)"
    using assms(2) by (intro mono) simp
  then have "fl (real_of_int e - real_of_int now') / real_of_int msPerDay
      \<le> fl (real_of_int e - real_of_int now) / real_of_int msPerDay"
    using msPerDay_pos by (intro divide_right_mono) simp_all
  then show ?thesis
    by (intro ceiling_mono mono)
qed

lemma double_quotient_elapsed:
  assumes "roundsToNearest fl" and "e \<le> now"
  shows "\<lceil>fl (fl (real_of_int e - real_of_int now) / real_of_int msPerDay)\<rceil> \<le> 0"
proof -
  have mono: "fl x \<le> fl y" if "x \<le> y" for x y
    using assms(1) that by (simp add: roundsToNearest_def)
  note z = roundsToNearest_zero [OF assms(1)]
  have "fl (real_of_int e - real_of_int now) \<le> fl 0"
    using assms(2) by (intro mono) simp
  then have "fl (real_of_int e - real_of_int now) / real_of_int msPerDay \<le> 0"
    using msPerDay_pos by (simp add: z divide_le_0_iff)
  then have "fl (fl (real_of_int e - real_of_int now) / real_of_int msPerDay) \<le> fl 0"
    by (rule mono)
  then show ?thesis
    by (simp add: z)
qed

lemma getDaysRemaining_date:
  assumes "truthy v" and "toDate parse v = Some e"
  shows "getDaysRemaining parse (Some v) now
    = max 0 \<lceil>binary64 (binary64 (real_of_int e - real_of_int now) / real_of_int msPerDay)\<rceil>"
proof -
  define c where "c =
    \<lceil>binary64 (binary64 (real_of_int e - real_of_int now) / real_of_int (1000 * 60 * 60 * 24))\<rceil>"
  have g: "getDaysRemaining parse (Some v) now = (if c > 0 then c else 0)"
    unfolding c_def using assms by (simp only: getDaysRemaining_def Let_def option.case if_False
        simp_thms)
  have m: "(if c > 0 then c else 0) = max 0 c"
    by (simp add: max_def)
  have c: "c = \<lceil>binary64 (binary64 (real_of_int e - real_of_int now) / real_of_int msPerDay)\<rceil>"
    by (simp add: c_def msPerDay_def)
  show ?thesis
    unfolding g m unfolding c ..
qed

lemma getDaysRemaining_no_date:
  assumes "\<not> (\<exists>w d. f = Some w \<and> truthy w \<and> toDate parse w = Some d)"
  shows "getDaysRemaining parse f now = 0"
  using assms by (auto simp add: getDaysRemaining_def split: option.splits)

lemma getDaysRemaining_properties:
  assumes "truthy v" and "toDate parse v = Some e"
  shows "0 \<le> getDaysRemaining parse (Some v) now"
    "now \<le> now' \<Longrightarrow>
       getDaysRemaining parse (Some v) now' \<le> getDaysRemaining parse (Some v) now"
    "e \<le> now \<Longrightarrow> getDaysRemaining parse (Some v) now = 0"
    "\<bar>e - now\<bar> < 2 ^ 53 \<Longrightarrow> getDaysRemaining parse (Some v) now
       = max 0 \<lceil>real_of_int (e - now) / real_of_int msPerDay\<rceil>"
proof -
  note fl = binary64_roundsToNearest
  define c where
    "c t = \<lceil>binary64 (binary64 (real_of_int e - real_of_int t) / real_of_int msPerDay)\<rceil>" for t
  have R: "getDaysRemaining parse (Some v) t = max 0 (c t)" for t
    unfolding c_def by (rule getDaysRemaining_date [OF assms])
  show "0 \<le> getDaysRemaining parse (Some v) now"
    by (simp add: R)
  show "getDaysRemaining parse (Some v) now' \<le> getDaysRemaining parse (Some v) now"
    if "now \<le> now'"
  proof -
    have "c now' \<le> c now"
      unfolding c_def by (rule double_quotient_mono [OF fl that])
    then show ?thesis
      by (simp add: R max_def)
  qed
  show "getDaysRemaining parse (Some v) now = 0" if "e \<le> now"
  proof -
    have "c now \<le> 0"
      unfolding c_def by (rule double_quotient_elapsed [OF fl that])
    then show ?thesis
      by (simp add: R max_def)
  qed
  show "getDaysRemaining parse (Some v) now
      = max 0 \<lceil>real_of_int (e - now) / real_of_int msPerDay\<rceil>" if "\<bar>e - now\<bar> < 2 ^ 53"
  proof -
    have "c now = \<lceil>real_of_int (e - now) / real_of_int msPerDay\<rceil>"
      using double_quotient_exact [OF fl that] by (simp add: c_def)
    then show ?thesis
      by (simp only: R)
  qed
qed

text \<open>
  Claim C5. The days remaining are an integer that is never negative, that does not
  increase as \<open>now\<close> advances, and that is 0 whenever \<open>now\<close> is not before the end date.
  For a stored end date that denotes the time value \<open>e\<close>, less than \<open>2\<^sup>5\<^sup>3\<close> milliseconds
  away from \<open>now\<close>, they are the ceiling of \<open>(e - now)\<close> in whole days, clamped to 0: the
  least number of whole days that covers the remaining time.
\<close>

theorem getDaysRemaining_ceiling_clamped:
  "0 \<le> getDaysRemaining parse f now
   \<and> (now \<le> now' \<longrightarrow> getDaysRemaining parse f now' \<le> getDaysRemaining parse f now)
   \<and> (f = Some v \<and> truthy v \<and> toDate parse v = Some e \<longrightarrow>
        (e \<le> now \<longrightarrow> getDaysRemaining parse f now = 0)
        \<and> (\<bar>e - now\<bar> < 2 ^ 53 \<longrightarrow>
             getDaysRemaining parse f now
               = max 0 \<lceil>real_of_int (e - now) / real_of_int msPerDay\<rceil>
             \<and> e - now \<le> getDaysRemaining parse f now * msPerDay
             \<and> (0 < getDaysRemaining parse f now \<longrightarrow>
                  (getDaysRemaining parse f now - 1) * msPerDay < e - now)))"
proof (cases "\<exists>w d. f = Some w \<and> truthy w \<and> toDate parse w = Some d")
  case True
  then obtain w d where w: "f = Some w" "truthy w" "toDate parse w = Some d"
    by blast
  note P = getDaysRemaining_properties [OF w(2,3)]
  have a: "0 \<le> getDaysRemaining parse f now"
    "now \<le> now' \<longrightarrow> getDaysRemaining parse f now' \<le> getDaysRemaining parse f now"
    using P(1,2) [of now] unfolding w(1) by blast+
  have b: "(e \<le> now \<longrightarrow> getDaysRemaining parse f now = 0)
      \<and> (\<bar>e - now\<bar> < 2 ^ 53 \<longrightarrow>
           getDaysRemaining parse f now
             = max 0 \<lceil>real_of_int (e - now) / real_of_int msPerDay\<rceil>
           \<and> e - now \<le> getDaysRemaining parse f now * msPerDay
           \<and> (0 < getDaysRemaining parse f now \<longrightarrow>
                (getDaysRemaining parse f now - 1) * msPerDay < e - now))"
    if "f = Some v \<and> truthy v \<and> toDate parse v = Some e"
  proof -
    have f: "f = Some v" and v: "truthy v" "toDate parse v = Some e"
      using that by simp_all
    note Q = getDaysRemaining_properties [OF v, where now = now]
    have "getDaysRemaining parse f now
          = max 0 \<lceil>real_of_int (e - now) / real_of_int msPerDay\<rceil>
        \<and> e - now \<le> getDaysRemaining parse f now * msPerDay
        \<and> (0 < getDaysRemaining parse f now \<longrightarrow>
             (getDaysRemaining parse f now - 1) * msPerDay < e - now)"
      if "\<bar>e - now\<bar> < 2 ^ 53"
      unfolding f Q(4) [OF that] using ceiling_days [of "e - now"] by blast
    then show ?thesis
      using Q(3) unfolding f by blast
  qed
  show ?thesis
    using a b by blast
next
  case False
  have z: "getDaysRemaining parse f t = 0" for t
    by (rule getDaysRemaining_no_date [OF False])
  have n: "\<not> (f = Some v \<and> truthy v \<and> toDate parse v = Some e)"
    using False by blast
  show ?thesis
    unfolding z using n by blast
qed

theorem getDaysRemaining_ceiling_clamped_witness:
  "truthy (JNum 172800001) \<and> toDate (\<lambda>s. None) (JNum 172800001) = Some 172800001
    \<and> getDaysRemaining (\<lambda>s. None) (Some (JNum 172800001)) 0 = 3
    \<and> getDaysRemaining (\<lambda>s. None) (Some (JNum 172800001)) 86400001 = 1
    \<and> getDaysRemaining (\<lambda>s. None) (Some (JNum 172800001)) 172800001 = 0"
  using getDaysRemaining_ceiling_clamped [of "\<lambda>s. None" "Some (JNum 172800001)" 0 0
      "JNum 172800001" 172800001]
    getDaysRemaining_ceiling_clamped [of "\<lambda>s. None" "Some (JNum 172800001)" 86400001 86400001
      "JNum 172800001" 172800001]
    getDaysRemaining_ceiling_clamped [of "\<lambda>s. None" "Some (JNum 172800001)" 172800001 172800001
      "JNum 172800001" 172800001]
  by (simp add: TimeClip_def msPerDay_def)

text \<open>
  Beyond \<open>2\<^sup>5\<^sup>3\<close> milliseconds the difference of two time values need not be a double: from
  a clock reading some 137 thousand years before 1970 to the last valid date the exact
  difference is one millisecond more than 150000000 days, the double nearest to it is
  150000000 days, and the days remaining are 150000000, one less than the ceiling.
\<close>

lemma getDaysRemaining_far_dates:
  "getDaysRemaining parse (Some (JNum 8640000000000000)) (- 4320000000000001) = 150000000"
  "max 0 \<lceil>real_of_int (8640000000000000 - (- 4320000000000001)) / real_of_int msPerDay\<rceil>
     = 150000001"
proof -
  have t: "truthy (JNum 8640000000000000)"
    "toDate parse (JNum 8640000000000000) = Some 8640000000000000"
    by (simp_all add: TimeClip_def)
  have "binary64 (12960000000000000 / real_of_int msPerDay) = binary64 (real_of_int 150000000)"
    by (simp add: msPerDay_def)
  also have "\<dots> = real_of_int 150000000"
    by (rule binary64_int) simp
  finally have "binary64 (binary64 (real_of_int 8640000000000000
      - real_of_int (- 4320000000000001)) / real_of_int msPerDay) = 150000000"
    by (simp add: binary64_beyond_53)
  then show
    "getDaysRemaining parse (Some (JNum 8640000000000000)) (- 4320000000000001) = 150000000"
    unfolding getDaysRemaining_date [OF t] by simp
  show "max 0 \<lceil>real_of_int (8640000000000000 - (- 4320000000000001)) / real_of_int msPerDay\<rceil>
     = 150000001"
    by (simp add: msPerDay_def)
qed

section \<open>Looking up, replacing and removing documents\<close>

lemma findById_Some: "findById us i = Some u \<Longrightarrow> u \<in> set us \<and> uid u = i"
  unfolding findById_def by (induction us) (auto split: if_splits)

lemma findById_None: "findById us i = None \<longleftrightarrow> i \<notin> uid ` set us"
  unfolding findById_def by (induction us) auto

lemma findById_updateById:
  assumes "\<And>u. uid u = i \<Longrightarrow> uid (f u) = i"
  shows "findById (updateById i f us) j =
    (if j = i then map_option f (findById us i) else findById us j)"
  using assms unfolding findById_def by (induction us) auto

lemma findById_deleteById_other: "j \<noteq> i \<Longrightarrow> findById (deleteById i us) j = findById us j"
  unfolding findById_def by (induction us) auto

lemma findById_deleteById_same:
  "distinct (map uid us) \<Longrightarrow> findById (deleteById i us) i = None"
proof (induction us)
  case Nil
  then show ?case by (simp add: findById_def)
next
  case (Cons u us)
  show ?case
  proof (cases "uid u = i")
    case True
    then have "i \<notin> uid ` set us"
      using Cons.prems by auto
    then show ?thesis
      using True by (simp add: findById_None)
  next
    case False
    then show ?thesis
      using Cons by (simp add: findById_def)
  qed
qed

section \<open>Reading a member\<close>

text \<open>
  Claim C7, as amended. \<^verbatim>\<open>GET /members/:id\<close> answers 403 (ForbiddenError) whenever the
  requester is not an admin and the identifier of the token, as a text, differs from the
  identifier of the request. A requester who asks for their own identifier gets the member
  (without the password) whatever their role, when the identifier denotes a document. An
  authorized requester gets 404 (NotFoundError) when the identifier is well formed and no
  document has it, and the server error (500) when the identifier is not well formed.
\<close>

theorem getMember_access:
  "(rrole r \<noteq> ''admin'' \<and> objectIdText dm (rid r) \<noteq> i \<longrightarrow>
      getMember dm st r i = (403, Message ''Unauthorized''))
   \<and> (objectIdText dm (rid r) = i \<and> castObjectId dm i = Some oid
        \<and> findById (users st) oid = Some m \<longrightarrow>
        getMember dm st r i = (200, MemberDoc (selectNoPassword m)))
   \<and> ((rrole r = ''admin'' \<or> objectIdText dm (rid r) = i) \<and> castObjectId dm i = Some oid
        \<and> findById (users st) oid = None \<longrightarrow>
        getMember dm st r i = (404, Message ''Member not found''))
   \<and> ((rrole r = ''admin'' \<or> objectIdText dm (rid r) = i) \<and> castObjectId dm i = None \<longrightarrow>
        getMember dm st r i = (500, Message ''Server error''))"
  by (auto simp add: getMember_def serverError_def)

theorem getMember_access_witness:
  "rrole member1 \<noteq> ''admin''
   \<and> objectIdText plainCasts (rid member1) = ''000000000000000000000001''
   \<and> getMember plainCasts ashaStore member1 ''000000000000000000000002''
       = (403, Message ''Unauthorized'')
   \<and> castObjectId plainCasts ''000000000000000000000001'' = Some (ObjectId 1)
   \<and> findById (users ashaStore) (ObjectId 1) = Some asha
   \<and> getMember plainCasts ashaStore member1 ''000000000000000000000001''
       = (200, MemberDoc (selectNoPassword asha))
   \<and> rrole admin0 = ''admin''
   \<and> castObjectId plainCasts ''00000000000000000000000a'' = Some (ObjectId 10)
   \<and> findById (users ashaStore) (ObjectId 10) = None
   \<and> getMember plainCasts ashaStore admin0 ''00000000000000000000000a''
       = (404, Message ''Member not found'')
   \<and> castObjectId plainCasts ''abc'' = None
   \<and> getMember plainCasts ashaStore admin0 ''abc'' = (500, Message ''Server error'')"
proof -
  have r: "rrole member1 \<noteq> ''admin''" "rrole admin0 = ''admin''"
    by (simp_all add: member1_def admin0_def)
  have t: "objectIdText plainCasts (rid member1) = ''000000000000000000000001''"
    by code_simp
  have c: "castObjectId plainCasts ''000000000000000000000001'' = Some (ObjectId 1)"
    "castObjectId plainCasts ''00000000000000000000000a'' = Some (ObjectId 10)"
    "castObjectId plainCasts ''abc'' = None"
    by code_simp+
  have f: "findById (users ashaStore) (ObjectId 1) = Some asha"
    "findById (users ashaStore) (ObjectId 10) = None"
    by (simp_all add: ashaStore_def asha_def findById_def)
  have n: "objectIdText plainCasts (rid member1) \<noteq> ''000000000000000000000002''"
    by code_simp
  note A = getMember_access [of member1 plainCasts "''000000000000000000000002''" ashaStore
      "ObjectId 1" asha]
  note B = getMember_access [of member1 plainCasts "''000000000000000000000001''" ashaStore
      "ObjectId 1" asha]
  note C = getMember_access [of admin0 plainCasts "''00000000000000000000000a''" ashaStore
      "ObjectId 10" asha]
  note D = getMember_access [of admin0 plainCasts "''abc''" ashaStore "ObjectId 10" asha]
  have "getMember plainCasts ashaStore member1 ''000000000000000000000002''
      = (403, Message ''Unauthorized'')"
    using A r(1) n by blast
  moreover have "getMember plainCasts ashaStore member1 ''000000000000000000000001''
      = (200, MemberDoc (selectNoPassword asha))"
    using B t c(1) f(1) by blast
  moreover have "getMember plainCasts ashaStore admin0 ''00000000000000000000000a''
      = (404, Message ''Member not found'')"
    using C r(2) c(2) f(2) by blast
  moreover have "getMember plainCasts ashaStore admin0 ''abc'' = (500, Message ''Server error'')"
    using D r(2) c(3) by blast
  ultimately show ?thesis
    using r t c f by blast
qed

text \<open>
  The claim as stated, with 404 for every unknown identifier, fails for an identifier that
  is not well formed: the lookup raises the cast error and the handler answers 500.
\<close>

theorem getMember_malformed_id_counterexample:
  "rrole admin0 = ''admin'' \<and> castObjectId plainCasts ''abc'' = None
   \<and> getMember plainCasts ashaStore admin0 ''abc'' = (500, Message ''Server error'')
   \<and> getMember plainCasts ashaStore admin0 ''abc'' \<noteq> (404, Message ''Member not found'')"
  by code_simp

text \<open>
  The handler compares the two identifiers as texts: a member whose token has the
  identifier in lower case is refused the same identifier written in upper case.
\<close>

lemma getMember_compares_texts:
  "castObjectId plainCasts ''00000000000000000000000A'' = Some (ObjectId 10)
   \<and> objectIdText plainCasts (ObjectId 10) = ''00000000000000000000000a''
   \<and> getMember plainCasts ashaStore \<lparr>rid = ObjectId 10, rrole = ''member''\<rparr>
        ''00000000000000000000000A'' = (403, Message ''Unauthorized'')"
  by code_simp


section \<open>Deleting a member\<close>

text \<open>
  Claim C9. Deleting is not idempotent: after a successful \<^verbatim>\<open>DELETE /members/:id\<close> the
  collection has no document with that id, and the same request again answers 404
  (NotFoundError) and changes nothing. The payments are not touched.
\<close>

theorem deleteMember_twice:
  assumes "distinct (map uid (users st))"
    and "deleteMember st r i = ((200, Message ''Member deleted''), st')"
  shows "findById (users st') i = None
    \<and> deleteMember st' r i = ((404, Message ''Member not found''), st')
    \<and> payments st' = payments st"
proof -
  have a: "isAdmin r"
    using assms(2) by (auto simp add: deleteMember_def adminRequired_def split: if_splits)
  then have s: "st' = st\<lparr>users := deleteById i (users st)\<rparr>"
    using assms(2) by (auto simp add: deleteMember_def split: option.splits)
  then have n: "findById (users st') i = None"
    using assms(1) by (simp add: findById_deleteById_same)
  then show ?thesis
    using a s by (simp add: deleteMember_def)
qed

theorem deleteMember_twice_witness:
  "distinct (map uid (users ashaStore))
    \<and> deleteMember ashaStore admin0 (ObjectId 1) = ((200, Message ''Member deleted''), emptyStore)
    \<and> findById (users emptyStore) (ObjectId 1) = None
    \<and> deleteMember emptyStore admin0 (ObjectId 1) = ((404, Message ''Member not found''), emptyStore)"
proof -
  have d: "distinct (map uid (users ashaStore))"
    by (simp add: ashaStore_def)
  have e: "deleteMember ashaStore admin0 (ObjectId 1) = ((200, Message ''Member deleted''), emptyStore)"
    by (simp add: deleteMember_def ashaStore_def emptyStore_def admin0_def isAdmin_def
        findById_def asha_def)
  show ?thesis
    using deleteMember_twice [OF d e] d e by simp
qed

section \<open>Creating a member\<close>

lemma findOneByEmail_None: "findOneByEmail us e = None \<longleftrightarrow> e \<notin> email ` set us"
  unfolding findOneByEmail_def by (induction us) auto

lemma findOneByEmail_Some: "findOneByEmail us e = Some u \<Longrightarrow> u \<in> set us \<and> email u = e"
  unfolding findOneByEmail_def by (induction us) (auto split: if_splits)

lemma newMember_email:
  assumes "newMember dm b now newId = Some m"
  shows "\<exists>v. bEmail b = Some v \<and> castString dm v = Some (email m)" "uid m = newId"
    "role m = ''member''"
  using assms
  by (auto simp add: newMember_def castRequired_def split: Option.bind_splits option.splits
      if_splits)

lemma insertUser_Some:
  assumes "insertUser us m = Some us'"
  shows "us' = us @ [m]" "uid m \<notin> uid ` set us" "email m \<notin> email ` set us"
  using assms by (auto simp add: insertUser_def list_ex_iff split: if_splits)

lemma saveMember_created:
  assumes "saveMember dm st b now newId = ((201, p), st1)"
  shows "\<exists>m. newMember dm b now newId = Some m \<and> insertUser (users st) m = Some (users st1)
    \<and> st1 = st\<lparr>users := users st @ [m]\<rparr>"
  using assms
  by (auto simp add: saveMember_def serverError_def insertUser_def split: option.splits if_splits)

lemma createMember_created:
  assumes "createMember dm st r b now newId = ((201, p), st1)"
  shows "\<exists>m v. newMember dm b now newId = Some m \<and> bEmail b = Some v
    \<and> castString dm v = Some (email m) \<and> uid m = newId
    \<and> uid m \<notin> uid ` set (users st) \<and> email m \<notin> email ` set (users st)
    \<and> st1 = st\<lparr>users := users st @ [m]\<rparr> \<and> isAdmin r"
proof -
  have a: "isAdmin r"
    using assms by (auto simp add: createMember_def adminRequired_def split: if_splits)
  have "saveMember dm st b now newId = ((201, p), st1)"
    using assms a
    by (auto simp add: createMember_def serverError_def split: option.splits)
  then obtain m where m: "newMember dm b now newId = Some m"
    "insertUser (users st) m = Some (users st1)" "st1 = st\<lparr>users := users st @ [m]\<rparr>"
    using saveMember_created by blast
  show ?thesis
    using m a newMember_email [OF m(1)] insertUser_Some [OF m(2)] by auto
qed

lemma createMember_conflict:
  assumes "isAdmin r" and "bEmail b = Some v" and "castString dm v = Some e"
    and "findOneByEmail (users st) e = Some u"
  shows "createMember dm st r b now newId = ((400, Message ''User already exists''), st)"
  using assms by (simp add: createMember_def)

lemma createMember_succeeds:
  assumes "isAdmin r" and "newMember dm b now newId = Some m"
    and "email m \<notin> email ` set (users st)" and "newId \<notin> uid ` set (users st)"
  shows "createMember dm st r b now newId
    = ((201, Message ''Member added successfully''), st\<lparr>users := users st @ [m]\<rparr>)"
proof -
  obtain v where v: "bEmail b = Some v" "castString dm v = Some (email m)"
    using newMember_email(1) [OF assms(2)] by blast
  have u: "uid m = newId"
    by (rule newMember_email(2) [OF assms(2)])
  have f: "findOneByEmail (users st) (email m) = None"
    using assms(3) by (simp add: findOneByEmail_None)
  have "\<forall>u\<in>set (users st). uid u \<noteq> uid m \<and> email u \<noteq> email m"
    using assms(3,4) u by (metis imageI)
  then have i: "insertUser (users st) m = Some (users st @ [m])"
    by (simp add: insertUser_def list_ex_iff)
  show ?thesis
    using assms(1) by (simp add: createMember_def v f saveMember_def assms(2) i)
qed

text \<open>
  Claim C6. When a member has been created and a second request to create a member uses
  the same email, the second request answers 400 (ConflictError) and leaves the store as it
  is, so that exactly one account has that email; a creation keeps identifiers and emails
  unique over all accounts, whatever their roles.
\<close>

theorem createMember_duplicate_email:
  assumes "createMember dm st r b now newId = ((201, Message ''Member added successfully''), st1)"
    and "bEmail b' = bEmail b" and "isAdmin r'"
  shows "createMember dm st1 r' b' now' newId' = ((400, Message ''User already exists''), st1)
    \<and> (\<exists>v e. bEmail b = Some v \<and> castString dm v = Some e
          \<and> length (filter (\<lambda>u. email u = e) (users st1)) = 1)
    \<and> (uniqueKeys st \<longrightarrow> uniqueKeys st1)"
proof -
  obtain m v where m: "bEmail b = Some v" "castString dm v = Some (email m)"
    "uid m \<notin> uid ` set (users st)" "email m \<notin> email ` set (users st)"
    "st1 = st\<lparr>users := users st @ [m]\<rparr>"
    using createMember_created [OF assms(1)] by blast
  have "findOneByEmail (users st1) (email m) \<noteq> None"
    using m(5) by (simp add: findOneByEmail_None)
  then obtain u where "findOneByEmail (users st1) (email m) = Some u"
    by blast
  then have c: "createMember dm st1 r' b' now' newId' = ((400, Message ''User already exists''), st1)"
    using createMember_conflict [OF assms(3), of b' v dm "email m" st1 u] m(1,2) assms(2) by simp
  have "\<forall>u\<in>set (users st). email u \<noteq> email m"
    using m(4) by (metis imageI)
  then have "filter (\<lambda>u. email u = email m) (users st) = []"
    by (simp add: filter_empty_conv)
  then have f: "length (filter (\<lambda>u. email u = email m) (users st1)) = 1"
    using m(5) by simp
  have k: "uniqueKeys st \<longrightarrow> uniqueKeys st1"
    using m(3,4,5) by (auto simp add: uniqueKeys_def)
  show ?thesis
    using c f k m(1,2) by blast
qed

theorem createMember_duplicate_email_witness:
  "createMember plainCasts emptyStore admin0 ashaBody 1709200000000 (ObjectId 1)
     = ((201, Message ''Member added successfully''), ashaStore)
   \<and> isAdmin admin0
   \<and> createMember plainCasts ashaStore admin0 ashaBody 1709300000000 (ObjectId 2)
     = ((400, Message ''User already exists''), ashaStore)
   \<and> uniqueKeys emptyStore \<and> uniqueKeys ashaStore"
proof -
  have a: "isAdmin admin0"
    by (simp add: isAdmin_def admin0_def)
  have c: "createMember plainCasts emptyStore admin0 ashaBody 1709200000000 (ObjectId 1)
     = ((201, Message ''Member added successfully''), ashaStore)"
    by (simp add: createMember_def saveMember_def newMember_def castRequired_def insertUser_def
        findOneByEmail_def plainCasts_def emptyStore_def ashaStore_def asha_def ashaBody_def
        membershipTypes_def TimeClip_def a)
  have u: "uniqueKeys emptyStore"
    by (simp add: uniqueKeys_def emptyStore_def)
  show ?thesis
    using createMember_duplicate_email [OF c refl a, of 1709300000000 "ObjectId 2"] a c u by simp
qed

section \<open>Updating a member\<close>

lemma given_keep: "\<not> given x \<Longrightarrow> keep x = None" "x = None \<Longrightarrow> keep x = None"
  by (simp_all add: keep_def given_def)

lemma given_falsy: "\<not> truthy v \<Longrightarrow> keep (Some v) = keep None"
  by (simp add: keep_def given_def)

lemma falsy_values: "v \<in> {JNull, JBool False, JNum 0, JStr []} \<longleftrightarrow> \<not> truthy v"
  by (cases v) auto

lemma castSet_None: "castSet c None old = Some old" "castSetOpt c None old' = Some old'"
  by (simp_all add: castSet_def castSetOpt_def)

lemma applySet_frame:
  assumes "applySet dm f m = Some m'"
  shows "uid m' = uid m" "password m' = password m" "role m' = role m"
    "createdAt m' = createdAt m"
    "bName f = None \<Longrightarrow> name m' = name m"
    "bEmail f = None \<Longrightarrow> email m' = email m"
    "bPhone f = None \<Longrightarrow> phone m' = phone m"
    "bMembershipType f = None \<Longrightarrow> membershipType m' = membershipType m"
    "bStartDate f = None \<Longrightarrow> startDate m' = startDate m"
    "bEndDate f = None \<Longrightarrow> endDate m' = endDate m"
    "bStatus f = None \<Longrightarrow> status m' = status m"
  using assms
  by (auto simp add: applySet_def castSet_None split: Option.bind_splits)

lemma memberFields_sel:
  "bName (memberFields b) = keep (bName b)" "bEmail (memberFields b) = keep (bEmail b)"
  "bPhone (memberFields b) = keep (bPhone b)"
  "bMembershipType (memberFields b) = keep (bMembershipType b)"
  "bStartDate (memberFields b) = keep (bStartDate b)"
  "bEndDate (memberFields b) = keep (bEndDate b)" "bStatus (memberFields b) = keep (bStatus b)"
  by (simp_all add: memberFields_def)

lemma updateMember_ok:
  assumes "updateMember dm st r i b = ((200, p), st')"
  shows "\<exists>m m'. isAdmin r \<and> findById (users st) i = Some m
    \<and> applySet dm (memberFields b) m = Some m' \<and> p = MemberDoc (selectNoPassword m')
    \<and> st' = st\<lparr>users := updateById i (\<lambda>u. m') (users st)\<rparr>"
  using assms
  by (auto simp add: updateMember_def adminRequired_def serverError_def Let_def
      split: if_splits option.splits)

lemma updateMember_found:
  assumes "updateMember dm st r i b = ((200, p), st')"
  shows "\<exists>m m'. findById (users st) i = Some m \<and> findById (users st') i = Some m'
    \<and> applySet dm (memberFields b) m = Some m' \<and> p = MemberDoc (selectNoPassword m')
    \<and> (\<forall>j. j \<noteq> i \<longrightarrow> findById (users st') j = findById (users st) j)
    \<and> payments st' = payments st"
proof -
  obtain m m' where m: "findById (users st) i = Some m"
    "applySet dm (memberFields b) m = Some m'" "p = MemberDoc (selectNoPassword m')"
    "st' = st\<lparr>users := updateById i (\<lambda>u. m') (users st)\<rparr>"
    using updateMember_ok [OF assms] by blast
  have "uid m' = i"
    using applySet_frame(1) [OF m(2)] findById_Some [OF m(1)] by simp
  then have f: "findById (users st') j = (if j = i then map_option (\<lambda>u. m') (findById (users st) i)
      else findById (users st) j)" for j
    unfolding m(4) by (simp add: findById_updateById)
  show ?thesis
    using m f by simp
qed

text \<open>
  Claim C8. A successful \<^verbatim>\<open>PUT /members/:id\<close> changes only fields that the body
  supplies: every field that the body does not supply keeps its prior value, the fields
  that cannot be set (identifier, password, role, creation time) keep theirs, every other
  document and the payments are as before. A body that supplies the membership type only
  leaves the start date, the end date and all other fields unchanged.
\<close>

theorem updateMember_frame:
  assumes "updateMember dm st r i b = ((200, p), st')"
  shows "\<exists>m m'. findById (users st) i = Some m \<and> findById (users st') i = Some m'
    \<and> p = MemberDoc (selectNoPassword m')
    \<and> (bName b = None \<longrightarrow> name m' = name m)
    \<and> (bEmail b = None \<longrightarrow> email m' = email m)
    \<and> (bPhone b = None \<longrightarrow> phone m' = phone m)
    \<and> (bMembershipType b = None \<longrightarrow> membershipType m' = membershipType m)
    \<and> (bStartDate b = None \<longrightarrow> startDate m' = startDate m)
    \<and> (bEndDate b = None \<longrightarrow> endDate m' = endDate m)
    \<and> (bStatus b = None \<longrightarrow> status m' = status m)
    \<and> uid m' = uid m \<and> password m' = password m \<and> role m' = role m
    \<and> createdAt m' = createdAt m
    \<and> (\<forall>j. j \<noteq> i \<longrightarrow> findById (users st') j = findById (users st) j)
    \<and> payments st' = payments st"
proof -
  obtain m m' where m: "findById (users st) i = Some m" "findById (users st') i = Some m'"
    "applySet dm (memberFields b) m = Some m'" "p = MemberDoc (selectNoPassword m')"
    "\<forall>j. j \<noteq> i \<longrightarrow> findById (users st') j = findById (users st) j"
    "payments st' = payments st"
    using updateMember_found [OF assms] by blast
  note F = applySet_frame [OF m(3), unfolded memberFields_sel]
  have "(bName b = None \<longrightarrow> name m' = name m)
    \<and> (bEmail b = None \<longrightarrow> email m' = email m)
    \<and> (bPhone b = None \<longrightarrow> phone m' = phone m)
    \<and> (bMembershipType b = None \<longrightarrow> membershipType m' = membershipType m)
    \<and> (bStartDate b = None \<longrightarrow> startDate m' = startDate m)
    \<and> (bEndDate b = None \<longrightarrow> endDate m' = endDate m)
    \<and> (bStatus b = None \<longrightarrow> status m' = status m)"
    using F(5-11) by (simp add: given_keep(2))
  then show ?thesis
    by (intro exI [of _ m] exI [of _ m']) (use m(1,2,4,5,6) F(1-4) in simp)
qed

theorem updateMember_frame_witness:
  "updateMember plainCasts ashaStore admin0 (ObjectId 1)
      (emptyBody\<lparr>bMembershipType := Some (JStr ''yearly'')\<rparr>)
     = ((200, MemberDoc (selectNoPassword (asha\<lparr>membershipType := Some ''yearly''\<rparr>))),
        \<lparr>users = [asha\<lparr>membershipType := Some ''yearly''\<rparr>], payments = []\<rparr>)
   \<and> findById (users ashaStore) (ObjectId 1) = Some asha
   \<and> startDate (asha\<lparr>membershipType := Some ''yearly''\<rparr>) = startDate asha
   \<and> endDate (asha\<lparr>membershipType := Some ''yearly''\<rparr>) = endDate asha
   \<and> name (asha\<lparr>membershipType := Some ''yearly''\<rparr>) = name asha"
proof -
  have u: "updateMember plainCasts ashaStore admin0 (ObjectId 1)
      (emptyBody\<lparr>bMembershipType := Some (JStr ''yearly'')\<rparr>)
     = ((200, MemberDoc (selectNoPassword (asha\<lparr>membershipType := Some ''yearly''\<rparr>))),
        \<lparr>users = [asha\<lparr>membershipType := Some ''yearly''\<rparr>], payments = []\<rparr>)"
    by (simp add: updateMember_def isAdmin_def admin0_def ashaStore_def emptyBody_def
        memberFields_def keep_def given_def findById_def asha_def applySet_def castSet_def
        castSetOpt_def plainCasts_def selectNoPassword_def)
  show ?thesis
    using updateMember_frame [OF u] u
    by (simp add: ashaStore_def findById_def asha_def)
qed

lemma updateMember_fields:
  "memberFields b = memberFields b' \<Longrightarrow> updateMember dm st r i b = updateMember dm st r i b'"
  by (simp add: updateMember_def)

lemma digits_nonempty: "digits n \<noteq> []"
  by (subst digits.simps) simp

lemma schemaString_nonempty:
  assumes "truthy v" and "schemaString v = Some s"
  shows "s \<noteq> []"
proof (cases v)
  case (JNum n)
  then show ?thesis
    using assms(2) digits_nonempty by (auto simp add: decimal_def split: if_splits)
next
  case (JObj kvs)
  then show ?thesis
    using assms(2) by (auto split: option.splits jsonval.splits if_splits)
qed (use assms in \<open>auto split: if_splits\<close>)

lemma keep_Some: "keep x = Some w \<Longrightarrow> x = Some w \<and> truthy w"
  by (auto simp add: keep_def given_def split: if_splits)

lemma castSet_cases:
  "castSet c x old = Some y \<Longrightarrow> y = old \<or> (\<exists>w. x = Some w \<and> c w = Some y)"
  "castSetOpt c x old' = Some y' \<Longrightarrow>
     y' = old' \<or> (\<exists>w z. x = Some w \<and> c w = Some z \<and> y' = Some z)"
  by (auto simp add: castSet_def castSetOpt_def split: option.splits)

lemma applySet_Some:
  assumes "applySet dm f m = Some m'"
  obtains n e p t s d a where
    "castSet (castString dm) (bName f) (name m) = Some n"
    "castSet (castString dm) (bEmail f) (email m) = Some e"
    "castSet (castString dm) (bPhone f) (phone m) = Some p"
    "castSetOpt (castString dm) (bMembershipType f) (membershipType m) = Some t"
    "castSetOpt (castDate dm) (bStartDate f) (startDate m) = Some s"
    "castSetOpt (castDate dm) (bEndDate f) (endDate m) = Some d"
    "castSet (castString dm) (bStatus f) (status m) = Some a"
    "m' = m\<lparr>name := n, email := e, phone := p, membershipType := t, startDate := s,
             endDate := d, status := a\<rparr>"
  using assms unfolding applySet_def by (auto split: Option.bind_splits)

lemma applySet_values:
  assumes "applySet dm f m = Some m'"
  shows "name m' = name m \<or> (\<exists>w. bName f = Some w \<and> castString dm w = Some (name m'))"
    "email m' = email m \<or> (\<exists>w. bEmail f = Some w \<and> castString dm w = Some (email m'))"
    "phone m' = phone m \<or> (\<exists>w. bPhone f = Some w \<and> castString dm w = Some (phone m'))"
    "status m' = status m \<or> (\<exists>w. bStatus f = Some w \<and> castString dm w = Some (status m'))"
    "membershipType m' = membershipType m
      \<or> (\<exists>w t. bMembershipType f = Some w \<and> castString dm w = Some t
            \<and> membershipType m' = Some t)"
    "startDate m' = startDate m \<or> startDate m' \<noteq> None"
    "endDate m' = endDate m \<or> endDate m' \<noteq> None"
proof -
  obtain n e p t s d a where c:
    "castSet (castString dm) (bName f) (name m) = Some n"
    "castSet (castString dm) (bEmail f) (email m) = Some e"
    "castSet (castString dm) (bPhone f) (phone m) = Some p"
    "castSetOpt (castString dm) (bMembershipType f) (membershipType m) = Some t"
    "castSetOpt (castDate dm) (bStartDate f) (startDate m) = Some s"
    "castSetOpt (castDate dm) (bEndDate f) (endDate m) = Some d"
    "castSet (castString dm) (bStatus f) (status m) = Some a"
    and m': "m' = m\<lparr>name := n, email := e, phone := p, membershipType := t, startDate := s,
             endDate := d, status := a\<rparr>"
    using applySet_Some [OF assms] by blast
  have s: "name m' = n" "email m' = e" "phone m' = p" "membershipType m' = t"
    "startDate m' = s" "endDate m' = d" "status m' = a"
    by (simp_all add: m')
  show "name m' = name m \<or> (\<exists>w. bName f = Some w \<and> castString dm w = Some (name m'))"
    unfolding s using castSet_cases(1) [OF c(1)] .
  show "email m' = email m \<or> (\<exists>w. bEmail f = Some w \<and> castString dm w = Some (email m'))"
    unfolding s using castSet_cases(1) [OF c(2)] .
  show "phone m' = phone m \<or> (\<exists>w. bPhone f = Some w \<and> castString dm w = Some (phone m'))"
    unfolding s using castSet_cases(1) [OF c(3)] .
  show "status m' = status m
      \<or> (\<exists>w. bStatus f = Some w \<and> castString dm w = Some (status m'))"
    unfolding s using castSet_cases(1) [OF c(7)] .
  show "membershipType m' = membershipType m
      \<or> (\<exists>w t. bMembershipType f = Some w \<and> castString dm w = Some t
            \<and> membershipType m' = Some t)"
    unfolding s using castSet_cases(2) [OF c(4)] .
  show "startDate m' = startDate m \<or> startDate m' \<noteq> None"
    unfolding s using castSet_cases(2) [OF c(5)] by blast
  show "endDate m' = endDate m \<or> endDate m' \<noteq> None"
    unfolding s using castSet_cases(2) [OF c(6)] by blast
qed

lemma applySet_not_cleared:
  assumes "applySet dm (memberFields b) m = Some m'"
    and "\<forall>w s. truthy w \<and> castString dm w = Some s \<longrightarrow> s \<noteq> []"
  shows "name m' = name m \<or> name m' \<noteq> []"
    "email m' = email m \<or> email m' \<noteq> []"
    "phone m' = phone m \<or> phone m' \<noteq> []"
    "status m' = status m \<or> status m' \<noteq> []"
    "membershipType m' = membershipType m \<or> (\<exists>t. membershipType m' = Some t \<and> t \<noteq> [])"
    "startDate m' = startDate m \<or> startDate m' \<noteq> None"
    "endDate m' = endDate m \<or> endDate m' \<noteq> None"
proof -
  note V = applySet_values [OF assms(1), unfolded memberFields_sel]
  have c: "s \<noteq> []" if "keep x = Some w" "castString dm w = Some s" for x w s
    using assms(2) keep_Some [OF that(1)] that(2) by blast
  show "name m' = name m \<or> name m' \<noteq> []"
    using V(1) c by blast
  show "email m' = email m \<or> email m' \<noteq> []"
    using V(2) c by blast
  show "phone m' = phone m \<or> phone m' \<noteq> []"
    using V(3) c by blast
  show "status m' = status m \<or> status m' \<noteq> []"
    using V(4) c by blast
  show "membershipType m' = membershipType m \<or> (\<exists>t. membershipType m' = Some t \<and> t \<noteq> [])"
    using V(5) c by blast
  show "startDate m' = startDate m \<or> startDate m' \<noteq> None"
    by (rule V(6))
  show "endDate m' = endDate m \<or> endDate m' \<noteq> None"
    by (rule V(7))
qed

text \<open>
  Claim C10. In \<^verbatim>\<open>PUT /members/:id\<close> a supplied field whose value is falsy (null,
  false, 0 or the empty string) is treated as absent: the request has the same outcome as
  the request without the field, and after a successful update the field has its prior
  value. No settable field is cleared through the update, whatever the request: when the
  cast to a string gives no empty string for a truthy value, as the mapper's cast does,
  every settable field of the updated member has its prior value or a value that is not
  empty.
\<close>

theorem updateMember_falsy_ignored:
  assumes "v \<in> {JNull, JBool False, JNum 0, JStr []}"
  shows "updateMember dm st r i (b\<lparr>bName := Some v\<rparr>) = updateMember dm st r i (b\<lparr>bName := None\<rparr>)
    \<and> updateMember dm st r i (b\<lparr>bEmail := Some v\<rparr>) = updateMember dm st r i (b\<lparr>bEmail := None\<rparr>)
    \<and> updateMember dm st r i (b\<lparr>bPhone := Some v\<rparr>) = updateMember dm st r i (b\<lparr>bPhone := None\<rparr>)
    \<and> updateMember dm st r i (b\<lparr>bMembershipType := Some v\<rparr>)
        = updateMember dm st r i (b\<lparr>bMembershipType := None\<rparr>)
    \<and> updateMember dm st r i (b\<lparr>bStartDate := Some v\<rparr>)
        = updateMember dm st r i (b\<lparr>bStartDate := None\<rparr>)
    \<and> updateMember dm st r i (b\<lparr>bEndDate := Some v\<rparr>)
        = updateMember dm st r i (b\<lparr>bEndDate := None\<rparr>)
    \<and> updateMember dm st r i (b\<lparr>bStatus := Some v\<rparr>)
        = updateMember dm st r i (b\<lparr>bStatus := None\<rparr>)
    \<and> (updateMember dm st r i b = ((200, p), st') \<longrightarrow>
         (\<exists>m m'. findById (users st) i = Some m \<and> findById (users st') i = Some m'
            \<and> (bName b = Some v \<longrightarrow> name m' = name m)
            \<and> (bEmail b = Some v \<longrightarrow> email m' = email m)
            \<and> (bPhone b = Some v \<longrightarrow> phone m' = phone m)
            \<and> (bMembershipType b = Some v \<longrightarrow> membershipType m' = membershipType m)
            \<and> (bStartDate b = Some v \<longrightarrow> startDate m' = startDate m)
            \<and> (bEndDate b = Some v \<longrightarrow> endDate m' = endDate m)
            \<and> (bStatus b = Some v \<longrightarrow> status m' = status m)))
    \<and> ((\<forall>w s. truthy w \<and> castString dm w = Some s \<longrightarrow> s \<noteq> [])
         \<and> updateMember dm st r i b = ((200, p), st') \<longrightarrow>
         (\<exists>m m'. findById (users st) i = Some m \<and> findById (users st') i = Some m'
            \<and> (name m' = name m \<or> name m' \<noteq> [])
            \<and> (email m' = email m \<or> email m' \<noteq> [])
            \<and> (phone m' = phone m \<or> phone m' \<noteq> [])
            \<and> (status m' = status m \<or> status m' \<noteq> [])
            \<and> (membershipType m' = membershipType m
                 \<or> (\<exists>t. membershipType m' = Some t \<and> t \<noteq> []))
            \<and> (startDate m' = startDate m \<or> startDate m' \<noteq> None)
            \<and> (endDate m' = endDate m \<or> endDate m' \<noteq> None)))"
proof -
  have v: "\<not> truthy v"
    using assms by auto
  have k: "keep (Some v) = None"
    using v by (simp add: keep_def given_def)
  have e: "updateMember dm st r i (b\<lparr>bName := Some v\<rparr>) = updateMember dm st r i (b\<lparr>bName := None\<rparr>)"
    "updateMember dm st r i (b\<lparr>bEmail := Some v\<rparr>) = updateMember dm st r i (b\<lparr>bEmail := None\<rparr>)"
    "updateMember dm st r i (b\<lparr>bPhone := Some v\<rparr>) = updateMember dm st r i (b\<lparr>bPhone := None\<rparr>)"
    "updateMember dm st r i (b\<lparr>bMembershipType := Some v\<rparr>)
        = updateMember dm st r i (b\<lparr>bMembershipType := None\<rparr>)"
    "updateMember dm st r i (b\<lparr>bStartDate := Some v\<rparr>)
        = updateMember dm st r i (b\<lparr>bStartDate := None\<rparr>)"
    "updateMember dm st r i (b\<lparr>bEndDate := Some v\<rparr>)
        = updateMember dm st r i (b\<lparr>bEndDate := None\<rparr>)"
    "updateMember dm st r i (b\<lparr>bStatus := Some v\<rparr>)
        = updateMember dm st r i (b\<lparr>bStatus := None\<rparr>)"
    by (rule updateMember_fields; simp add: memberFields_def keep_def given_def v)+
  have f: "\<exists>m m'. findById (users st) i = Some m \<and> findById (users st') i = Some m'
            \<and> (bName b = Some v \<longrightarrow> name m' = name m)
            \<and> (bEmail b = Some v \<longrightarrow> email m' = email m)
            \<and> (bPhone b = Some v \<longrightarrow> phone m' = phone m)
            \<and> (bMembershipType b = Some v \<longrightarrow> membershipType m' = membershipType m)
            \<and> (bStartDate b = Some v \<longrightarrow> startDate m' = startDate m)
            \<and> (bEndDate b = Some v \<longrightarrow> endDate m' = endDate m)
            \<and> (bStatus b = Some v \<longrightarrow> status m' = status m)"
    if s: "updateMember dm st r i b = ((200, p), st')"
  proof -
    obtain m m' where m: "findById (users st) i = Some m" "findById (users st') i = Some m'"
      "applySet dm (memberFields b) m = Some m'"
      using updateMember_found [OF s] by blast
    note F = applySet_frame [OF m(3), unfolded memberFields_sel]
    have "(bName b = Some v \<longrightarrow> name m' = name m)
      \<and> (bEmail b = Some v \<longrightarrow> email m' = email m)
      \<and> (bPhone b = Some v \<longrightarrow> phone m' = phone m)
      \<and> (bMembershipType b = Some v \<longrightarrow> membershipType m' = membershipType m)
      \<and> (bStartDate b = Some v \<longrightarrow> startDate m' = startDate m)
      \<and> (bEndDate b = Some v \<longrightarrow> endDate m' = endDate m)
      \<and> (bStatus b = Some v \<longrightarrow> status m' = status m)"
      using F(5-11) by (simp add: k)
    then show ?thesis
      by (intro exI [of _ m] exI [of _ m']) (use m(1,2) in simp)
  qed
  have g: "\<exists>m m'. findById (users st) i = Some m \<and> findById (users st') i = Some m'
            \<and> (name m' = name m \<or> name m' \<noteq> [])
            \<and> (email m' = email m \<or> email m' \<noteq> [])
            \<and> (phone m' = phone m \<or> phone m' \<noteq> [])
            \<and> (status m' = status m \<or> status m' \<noteq> [])
            \<and> (membershipType m' = membershipType m
                 \<or> (\<exists>t. membershipType m' = Some t \<and> t \<noteq> []))
            \<and> (startDate m' = startDate m \<or> startDate m' \<noteq> None)
            \<and> (endDate m' = endDate m \<or> endDate m' \<noteq> None)"
    if c: "\<forall>w s. truthy w \<and> castString dm w = Some s \<longrightarrow> s \<noteq> []"
      and s: "updateMember dm st r i b = ((200, p), st')"
  proof -
    obtain m m' where m: "findById (users st) i = Some m" "findById (users st') i = Some m'"
      "applySet dm (memberFields b) m = Some m'"
      using updateMember_found [OF s] by blast
    note N = applySet_not_cleared [OF m(3) c]
    show ?thesis
      by (intro exI [of _ m] exI [of _ m'] conjI m(1,2) N)
  qed
  have g': "(\<forall>w s. truthy w \<and> castString dm w = Some s \<longrightarrow> s \<noteq> [])
         \<and> updateMember dm st r i b = ((200, p), st') \<longrightarrow>
         (\<exists>m m'. findById (users st) i = Some m \<and> findById (users st') i = Some m'
            \<and> (name m' = name m \<or> name m' \<noteq> [])
            \<and> (email m' = email m \<or> email m' \<noteq> [])
            \<and> (phone m' = phone m \<or> phone m' \<noteq> [])
            \<and> (status m' = status m \<or> status m' \<noteq> [])
            \<and> (membershipType m' = membershipType m
                 \<or> (\<exists>t. membershipType m' = Some t \<and> t \<noteq> []))
            \<and> (startDate m' = startDate m \<or> startDate m' \<noteq> None)
            \<and> (endDate m' = endDate m \<or> endDate m' \<noteq> None))"
    using g by blast
  have f': "updateMember dm st r i b = ((200, p), st') \<longrightarrow>
         (\<exists>m m'. findById (users st) i = Some m \<and> findById (users st') i = Some m'
            \<and> (bName b = Some v \<longrightarrow> name m' = name m)
            \<and> (bEmail b = Some v \<longrightarrow> email m' = email m)
            \<and> (bPhone b = Some v \<longrightarrow> phone m' = phone m)
            \<and> (bMembershipType b = Some v \<longrightarrow> membershipType m' = membershipType m)
            \<and> (bStartDate b = Some v \<longrightarrow> startDate m' = startDate m)
            \<and> (bEndDate b = Some v \<longrightarrow> endDate m' = endDate m)
            \<and> (bStatus b = Some v \<longrightarrow> status m' = status m))"
    using f by blast
  show ?thesis
    by (intro conjI e f' g')
qed

theorem updateMember_falsy_ignored_witness:
  "JStr [] \<in> {JNull, JBool False, JNum 0, JStr []}
   \<and> updateMember plainCasts ashaStore admin0 (ObjectId 1) (emptyBody\<lparr>bName := Some (JStr [])\<rparr>)
       = ((200, MemberDoc (selectNoPassword asha)), ashaStore)
   \<and> updateMember plainCasts ashaStore admin0 (ObjectId 1) (emptyBody\<lparr>bName := None\<rparr>)
       = ((200, MemberDoc (selectNoPassword asha)), ashaStore)
   \<and> findById (users ashaStore) (ObjectId 1) = Some asha
   \<and> updateMember (schemaCasts (\<lambda>s. None)) ashaStore admin0 (ObjectId 1)
        (emptyBody\<lparr>bName := Some (JNum 5)\<rparr>)
       = ((200, MemberDoc (selectNoPassword (asha\<lparr>name := ''5''\<rparr>))),
          \<lparr>users = [asha\<lparr>name := ''5''\<rparr>], payments = []\<rparr>)
   \<and> name (asha\<lparr>name := ''5''\<rparr>) \<noteq> []"
proof -
  have v: "JStr [] \<in> {JNull, JBool False, JNum 0, JStr []}"
    by simp
  have u: "updateMember plainCasts ashaStore admin0 (ObjectId 1) (emptyBody\<lparr>bName := None\<rparr>)
       = ((200, MemberDoc (selectNoPassword asha)), ashaStore)"
    by (simp add: updateMember_def isAdmin_def admin0_def ashaStore_def emptyBody_def
        memberFields_def keep_def given_def findById_def asha_def applySet_def castSet_def
        castSetOpt_def plainCasts_def selectNoPassword_def)
  have c: "\<forall>w s. truthy w \<and> castString (schemaCasts (\<lambda>s. None)) w = Some s \<longrightarrow> s \<noteq> []"
    by (auto simp add: schemaCasts_def dest: schemaString_nonempty)
  have d: "decimal 5 = ''5''"
    by code_simp
  have w: "updateMember (schemaCasts (\<lambda>s. None)) ashaStore admin0 (ObjectId 1)
        (emptyBody\<lparr>bName := Some (JNum 5)\<rparr>)
       = ((200, MemberDoc (selectNoPassword (asha\<lparr>name := ''5''\<rparr>))),
          \<lparr>users = [asha\<lparr>name := ''5''\<rparr>], payments = []\<rparr>)"
    by (simp add: updateMember_def isAdmin_def admin0_def ashaStore_def emptyBody_def
        memberFields_def keep_def given_def findById_def asha_def applySet_def castSet_def
        castSetOpt_def schemaCasts_def selectNoPassword_def d)
  show ?thesis
    using updateMember_falsy_ignored [OF v, of plainCasts ashaStore admin0 "ObjectId 1" emptyBody]
      updateMember_falsy_ignored [OF v, of plainCasts ashaStore admin0 "ObjectId 1"
        "emptyBody\<lparr>bName := Some (JStr [])\<rparr>" "MemberDoc (selectNoPassword asha)" ashaStore]
      updateMember_falsy_ignored [OF v, of "schemaCasts (\<lambda>s. None)" ashaStore admin0
        "ObjectId 1" "emptyBody\<lparr>bName := Some (JNum 5)\<rparr>"
        "MemberDoc (selectNoPassword (asha\<lparr>name := ''5''\<rparr>))"
        "\<lparr>users = [asha\<lparr>name := ''5''\<rparr>], payments = []\<rparr>"]
      u v w c
    by (simp add: ashaStore_def findById_def asha_def)
qed

text \<open>
  A truthy value that has no cast, such as the empty array, is not ignored and is not
  stored: the update raises the cast error and the handler answers 500 with the stored
  member as before.
\<close>

lemma updateMember_empty_array:
  "truthy (JArr [])
   \<and> updateMember (schemaCasts (\<lambda>s. None)) ashaStore admin0 (ObjectId 1)
        (emptyBody\<lparr>bName := Some (JArr [])\<rparr>) = ((500, Message ''Server error''), ashaStore)"
  by (simp add: updateMember_def isAdmin_def admin0_def ashaStore_def emptyBody_def
      memberFields_def keep_def given_def findById_def asha_def applySet_def castSet_def
      castSetOpt_def schemaCasts_def serverError_def)

section \<open>Verifying a payment\<close>

text \<open>
  The handler reads the signature and never looks at it, and it answers either 200 or the
  server error: there is no answer for an unverifiable payment and none for a requester
  without a document.
\<close>

lemma verify_ignores_signature:
  "verify tz st r (b\<lparr>razorpaySignatureB := s\<rparr>) now1 now2 now3 newId
     = verify tz st r b now1 now2 now3 newId"
  by (simp add: verify_def newPayment_def cong: option.case_cong prod.case_cong if_cong)

lemma verify_status:
  "fst (fst (verify tz st r b now1 now2 now3 newId)) = 200
   \<or> verify tz st r b now1 now2 now3 newId = (serverError, st)"
  by (simp add: verify_def split: prod.splits option.splits)

lemma membershipDates_fst: "fst (membershipDates tz plan now1 now2) = now1"
  by (simp add: membershipDates_def)

lemma newPayment_Some:
  assumes "newPayment r b startD endD now3 newId = Some pay"
  shows "userId pay = rid r" "paymentStatus pay = ''completed''" "membership pay = membershipB b"
    "paymentStartDate pay = Some startD" "paymentEndDate pay = endD" "pid pay = newId"
  using assms
  by (auto simp add: newPayment_def split: option.splits if_splits)

lemma verify_ok:
  assumes "verify tz st r b now1 now2 now3 newId = ((200, p), st')"
  shows "\<exists>endD pay. membershipDates tz (membershipB b) now1 now2 = (now1, endD)
    \<and> newPayment r b now1 endD now3 newId = Some pay
    \<and> payments st' = payments st @ [pay]
    \<and> users st' = updateById (rid r)
         (\<lambda>u. u\<lparr>membershipType := membershipB b, startDate := Some now1, endDate := endD,
                status := ''active''\<rparr>) (users st)"
proof -
  obtain s e where d: "membershipDates tz (membershipB b) now1 now2 = (s, e)"
    by (cases "membershipDates tz (membershipB b) now1 now2")
  have s: "s = now1"
    using membershipDates_fst [of tz "membershipB b" now1 now2] d by simp
  show ?thesis
    using assms unfolding verify_def d s
    by (auto simp add: serverError_def insertPayment_def split: option.splits if_splits)
qed

lemma verify_succeeds:
  assumes "p \<in> set membershipTypes" and "membershipB b = Some p" and "amountB b = Some a"
    and "boundedZone tz" and "- maxTime \<le> now2" and "now2 + 368 * msPerDay \<le> maxTime"
    and "newId \<notin> pid ` set (payments st)"
  shows "fst (verify tz st r b now1 now2 now3 newId)
    = (200, Success ''Payment verified and membership updated'')"
proof -
  note B = addCalendarMonths_plan [OF assms(1,4), where t = now2]
  have "TimeClip (addCalendarMonths tz (planMonths p) now2) =
      Some (addCalendarMonths tz (planMonths p) now2)"
    using B assms(5,6) by (intro TimeClip_Some) simp_all
  then have d: "membershipDates tz (membershipB b) now1 now2
      = (now1, Some (addCalendarMonths tz (planMonths p) now2))"
    by (simp add: assms(2) membershipDates_plan [OF assms(1)])
  define E where "E = addCalendarMonths tz (planMonths p) now2"
  define pay where "pay = \<lparr>pid = newId, userId = rid r, amount = a / 100,
    paymentType = ''membership'', paymentMethod = ''card'',
    razorpayPaymentId = razorpayPaymentIdB b, razorpayOrderId = razorpayOrderIdB b,
    membership = membershipB b, paymentStatus = ''completed'', paymentStartDate = Some now1,
    paymentEndDate = Some E, paymentCreatedAt = now3\<rparr>"
  have n: "newPayment r b now1 (Some E) now3 newId = Some pay"
    using assms(1) by (simp add: newPayment_def assms(2,3) pay_def)
  have "\<forall>q\<in>set (payments st). pid q \<noteq> newId"
    using assms(7) by (metis imageI)
  then have i: "insertPayment (payments st) pay = Some (payments st @ [pay])"
    by (simp add: insertPayment_def list_ex_iff pay_def)
  have "verify tz st r b now1 now2 now3 newId =
      (case newPayment r b now1 (Some E) now3 newId of
         None \<Rightarrow> (serverError, st)
       | Some p \<Rightarrow>
           (case insertPayment (payments st) p of
              None \<Rightarrow> (serverError, st)
            | Some ps \<Rightarrow>
                ((200, Success ''Payment verified and membership updated''),
                 st\<lparr>payments := ps,
                    users := updateById (rid r)
                      (\<lambda>u. u\<lparr>membershipType := membershipB b, startDate := Some now1,
                             endDate := Some E, status := ''active''\<rparr>)
                      (users st)\<rparr>)))"
    by (simp only: verify_def d E_def prod.case)
  then show ?thesis
    by (simp add: n i)
qed


text \<open>
  What every successful \<^verbatim>\<open>POST /payments/verify\<close> with the plan yearly does, for a
  requester whose id resolves to a user document: fetching that document afterwards yields
  the membership type yearly, the status active, the first clock reading as start date and
  the second clock reading plus one calendar year as end date; the payment that the call
  persisted is completed and has the same start date and end date.
\<close>

lemma verify_yearly_readings:
  assumes "membershipB b = Some ''yearly''" and "findById (users st) (rid r) = Some m"
    and "verify tz st r b now1 now2 now3 newId = ((200, p), st')"
  shows "\<exists>m' pay. findById (users st') (rid r) = Some m'
    \<and> membershipType m' = Some ''yearly'' \<and> status m' = ''active''
    \<and> startDate m' = Some now1 \<and> endDate m' = Some (addCalendarMonths tz 12 now2)
    \<and> payments st' = payments st @ [pay]
    \<and> userId pay = rid r \<and> paymentStatus pay = ''completed''
    \<and> membership pay = Some ''yearly''
    \<and> paymentStartDate pay = startDate m' \<and> paymentEndDate pay = endDate m'"
proof -
  obtain endD pay where v: "membershipDates tz (membershipB b) now1 now2 = (now1, endD)"
    "newPayment r b now1 endD now3 newId = Some pay" "payments st' = payments st @ [pay]"
    "users st' = updateById (rid r)
         (\<lambda>u. u\<lparr>membershipType := membershipB b, startDate := Some now1, endDate := endD,
                status := ''active''\<rparr>) (users st)"
    using verify_ok [OF assms(3)] by blast
  have y: "''yearly'' \<in> set membershipTypes"
    by (simp add: membershipTypes_def)
  have "endD = TimeClip (addCalendarMonths tz 12 now2)"
    using v(1) by (simp add: assms(1) membershipDates_plan [OF y] planMonths_def)
  moreover have "endD \<noteq> None"
    using v(2) by (auto simp add: newPayment_def split: option.splits)
  ultimately have e: "endD = Some (addCalendarMonths tz 12 now2)"
    by (simp add: TimeClip_def split: if_splits)
  define m' where "m' = m\<lparr>membershipType := Some ''yearly'', startDate := Some now1,
    endDate := Some (addCalendarMonths tz 12 now2), status := ''active''\<rparr>"
  have f: "findById (users st') (rid r) = Some m'"
    unfolding v(4) by (simp add: findById_updateById assms(1,2) e m'_def)
  note P = newPayment_Some [OF v(2)]
  show ?thesis
    by (intro exI [of _ m'] exI [of _ pay])
      (use f v(3) P e in \<open>simp add: m'_def assms(1)\<close>)
qed

text \<open>
  Claim C3. After a successful \<^verbatim>\<open>POST /payments/verify\<close> with the plan yearly the
  member must have the membership type yearly, the status active and an end date that is
  the start date plus one year, and the persisted payment must be completed with the same
  dates. The handler does not compute this end date: it takes the start date from one
  clock reading and adds the year to a second one. When midnight of 2024-03-01 UTC falls
  between the two readings, the member and the payment start on 2024-02-29 23:59:59.999
  and end on 2025-03-01 00:00:00.000, whereas the start date plus one year is 2025-03-01
  23:59:59.999 (the 29th of February 2025 rolls into March).
\<close>

theorem verify_yearly_second_reading:
  "verify utcZone ashaStore member1 yearlyBody 1709251199999 1709251200000 1709251200001
     (ObjectId 7)
     = ((200, Success ''Payment verified and membership updated''),
        \<lparr>users = [asha\<lparr>membershipType := Some ''yearly'', startDate := Some 1709251199999,
                         endDate := Some 1740787200000, status := ''active''\<rparr>],
         payments = [\<lparr>pid = ObjectId 7, userId = ObjectId 1, amount = 5000,
                       paymentType = ''membership'', paymentMethod = ''card'',
                       razorpayPaymentId = Some ''pay_1'', razorpayOrderId = Some ''order_1'',
                       membership = Some ''yearly'', paymentStatus = ''completed'',
                       paymentStartDate = Some 1709251199999,
                       paymentEndDate = Some 1740787200000,
                       paymentCreatedAt = 1709251200001\<rparr>]\<rparr>)
   \<and> addCalendarMonths utcZone 12 1709251199999 = 1740873599999"
  by code_simp


text \<open>
  Claim C1. A payment whose signature cannot be confirmed must be refused and nothing must
  be persisted. The handler does not do so: a request with a made-up signature is answered
  with success, the completed payment is persisted and the member is updated.
\<close>

theorem verify_forged_signature_accepted:
  "razorpaySignatureB yearlyBody = Some ''forged''
   \<and> verify utcZone ashaStore member1 yearlyBody 1709251200000 1709251200000 1709251200000 (ObjectId 7)
     = ((200, Success ''Payment verified and membership updated''),
        \<lparr>users = [asha\<lparr>membershipType := Some ''yearly'', startDate := Some 1709251200000,
                         endDate := Some 1740787200000, status := ''active''\<rparr>],
         payments = [\<lparr>pid = ObjectId 7, userId = ObjectId 1, amount = 5000,
                       paymentType = ''membership'', paymentMethod = ''card'',
                       razorpayPaymentId = Some ''pay_1'', razorpayOrderId = Some ''order_1'',
                       membership = Some ''yearly'', paymentStatus = ''completed'',
                       paymentStartDate = Some 1709251200000,
                       paymentEndDate = Some 1740787200000,
                       paymentCreatedAt = 1709251200000\<rparr>]\<rparr>)"
  by code_simp


text \<open>
  Claim C2. A requester whose id resolves to no user document must get NotFoundError, and
  nothing must be written. The handler does not do so: it answers with success and
  persists a completed payment for the unknown id.
\<close>

theorem verify_unknown_member_succeeds:
  "findById (users ashaStore) (rid stranger) = None
   \<and> verify utcZone ashaStore stranger yearlyBody 1709251200000 1709251200000 1709251200000 (ObjectId 7)
     = ((200, Success ''Payment verified and membership updated''),
        \<lparr>users = [asha],
         payments = [\<lparr>pid = ObjectId 7, userId = ObjectId 2, amount = 5000,
                       paymentType = ''membership'', paymentMethod = ''card'',
                       razorpayPaymentId = Some ''pay_1'', razorpayOrderId = Some ''order_1'',
                       membership = Some ''yearly'', paymentStatus = ''completed'',
                       paymentStartDate = Some 1709251200000,
                       paymentEndDate = Some 1740787200000,
                       paymentCreatedAt = 1709251200000\<rparr>]\<rparr>)"
  by code_simp

section \<open>The unique keys are kept\<close>

text \<open>
  Every handler that writes to the users collection keeps identifiers and emails unique
  over all accounts.
\<close>

lemma set_deleteById: "set (deleteById i us) \<subseteq> set us"
  by (induction us) auto

lemma distinct_map_deleteById: "distinct (map f us) \<Longrightarrow> distinct (map f (deleteById i us))"
proof (induction us)
  case Nil
  then show ?case by simp
next
  case (Cons u us)
  then show ?case
    using set_deleteById [of i us] by auto
qed

lemma map_updateById:
  assumes "\<And>u. uid u = i \<Longrightarrow> g (f u) = g u"
  shows "map g (updateById i f us) = map g us"
  using assms by (induction us) auto

lemma deleteMember_uniqueKeys:
  "uniqueKeys st \<Longrightarrow> uniqueKeys (snd (deleteMember st r i))"
  by (simp add: deleteMember_def uniqueKeys_def distinct_map_deleteById split: option.splits)

lemma verify_uniqueKeys:
  "uniqueKeys st \<Longrightarrow> uniqueKeys (snd (verify tz st r b now1 now2 now3 newId))"
  by (simp add: verify_def uniqueKeys_def map_updateById split: prod.splits option.splits)

lemma createMember_uniqueKeys:
  assumes "uniqueKeys st"
  shows "uniqueKeys (snd (createMember dm st r b now newId))"
proof -
  have "uniqueKeys (snd (saveMember dm st b now newId))"
    using assms
    by (auto simp add: saveMember_def uniqueKeys_def insertUser_def list_ex_iff
        split: option.splits if_splits)
  then show ?thesis
    using assms by (simp add: createMember_def split: option.splits)
qed

lemma distinct_email_updateById:
  assumes "distinct (map uid us)" "distinct (map email us)"
    and "\<forall>u\<in>set us. uid u \<noteq> i \<longrightarrow> email u \<noteq> email m'"
  shows "distinct (map email (updateById i (\<lambda>u. m') us))"
  using assms
proof (induction us)
  case Nil
  then show ?case by simp
next
  case (Cons u us)
  show ?case
  proof (cases "uid u = i")
    case True
    then have "\<forall>v\<in>set us. uid v \<noteq> i"
      using Cons.prems(1) by (metis distinct.simps(2) imageI list.simps(9) set_map)
    then have "email m' \<notin> email ` set us"
      using Cons.prems(3) by auto
    then show ?thesis
      using True Cons.prems(2) by simp
  next
    case False
    have "set (updateById i (\<lambda>u. m') us) \<subseteq> insert m' (set us)"
      by (induction us) auto
    then have "email u \<notin> email ` set (updateById i (\<lambda>u. m') us)"
      using Cons.prems(2,3) False by auto
    then show ?thesis
      using False Cons by simp
  qed
qed

lemma updateMember_uniqueKeys:
  assumes "uniqueKeys st"
  shows "uniqueKeys (snd (updateMember dm st r i b))"
proof (cases "fst (fst (updateMember dm st r i b)) = 200")
  case True
  then obtain p st' where s: "updateMember dm st r i b = ((200, p), st')"
    by (metis prod.collapse)
  then obtain m m' where m: "findById (users st) i = Some m"
    "applySet dm (memberFields b) m = Some m'"
    "st' = st\<lparr>users := updateById i (\<lambda>u. m') (users st)\<rparr>"
    using updateMember_ok by blast
  have i: "uid m' = i"
    using applySet_frame(1) [OF m(2)] findById_Some [OF m(1)] by simp
  have c: "email m' = email m \<or> \<not> list_ex (\<lambda>u. email u = email m') (users st)"
    using s m(1,2)
    by (auto simp add: updateMember_def serverError_def adminRequired_def Let_def
        split: if_splits)
  have inj: "inj_on email (set (users st))"
    using assms by (simp add: uniqueKeys_def distinct_map)
  have e: "\<forall>u\<in>set (users st). uid u \<noteq> i \<longrightarrow> email u \<noteq> email m'"
  proof (intro ballI impI)
    fix u
    assume u: "u \<in> set (users st)" "uid u \<noteq> i"
    show "email u \<noteq> email m'"
    proof (cases "email m' = email m")
      case True
      have "u \<noteq> m"
        using u(2) findById_Some [OF m(1)] by auto
      then show ?thesis
        using inj_onD [OF inj, of u m] u(1) findById_Some [OF m(1)] True by auto
    next
      case False
      then show ?thesis
        using c u(1) unfolding list_ex_iff by blast
    qed
  qed
  have "map uid (updateById i (\<lambda>u. m') (users st)) = map uid (users st)"
    using i by (simp add: map_updateById)
  then show ?thesis
    using assms distinct_email_updateById [OF _ _ e] s m(3) by (simp add: uniqueKeys_def)
next
  case False
  then have "snd (updateMember dm st r i b) = st"
    by (auto simp add: updateMember_def Let_def split: option.splits if_splits)
  then show ?thesis
    using assms by simp
qed

end
